theory Spec2Isabelle
  imports Main "HOL-Library.AList"
begin

section \<open>JavaScript values used by the game model\<close>

text \<open>
  Cell coordinates are JavaScript numbers. The game only ever computes with integral
  coordinates, so a coordinate is an \<open>int\<close>; the one place where \<open>NaN\<close> can arise
  (\<open>parseInt\<close> in \<open>squareToCoords\<close>) returns an \<open>int option\<close>, \<open>None\<close> standing for \<open>NaN\<close>.
  A template literal renders an integer in decimal, with a leading minus sign when negative.
\<close>

definition digit_char :: "nat \<Rightarrow> char" where
  "digit_char d = ''0123456789'' ! d"

function dec_nat :: "nat \<Rightarrow> string" where
  "dec_nat n = (if n < 10 then [digit_char n] else dec_nat (n div 10) @ [digit_char (n mod 10)])"
  by pat_completeness auto
termination
  by (relation "measure id") auto

declare dec_nat.simps [simp del]

definition num_str :: "int \<Rightarrow> string" where
  "num_str k = (if k < 0 then CHR ''-'' # dec_nat (nat (- k)) else dec_nat (nat k))"

text \<open>\<open>s[k]\<close> on a string: the character, or \<open>undefined\<close> (\<open>None\<close>) past the end.\<close>

definition char_at :: "string \<Rightarrow> nat \<Rightarrow> char option" where
  "char_at s k = (if k < length s then Some (s ! k) else None)"

text \<open>
  \<open>parseInt\<close> applied to \<open>square[1]\<close>: the argument is one character or \<open>undefined\<close>.
  Only a decimal digit parses; anything else (a letter, a sign, a blank, \<open>undefined\<close>)
  gives \<open>NaN\<close>.
\<close>

definition is_digit :: "char \<Rightarrow> bool" where
  "is_digit c = (48 \<le> (of_char c :: nat) \<and> (of_char c :: nat) \<le> 57)"

definition parseInt :: "char option \<Rightarrow> int option" where
  "parseInt a = (case a of None \<Rightarrow> None
     | Some c \<Rightarrow> if is_digit c then Some (int (of_char c :: nat) - 48) else None)"

text \<open>\<open>Array.prototype.indexOf\<close>: the first index holding the value, or \<open>-1\<close>.\<close>

fun indexOf_from :: "int \<Rightarrow> 'a list \<Rightarrow> 'a \<Rightarrow> int" where
  "indexOf_from k [] x = -1"
| "indexOf_from k (y # ys) x = (if y = x then k else indexOf_from (k + 1) ys x)"

definition indexOf :: "'a list \<Rightarrow> 'a option \<Rightarrow> int" where
  "indexOf xs a = (case a of None \<Rightarrow> -1 | Some x \<Rightarrow> indexOf_from 0 xs x)"

section \<open>Coordinate mapper\<close>

definition files :: "char list" where
  "files = ''abcdefgh''"

text \<open>
  \<open>coordsToSquare(i, j)\<close> is the template \<open>`${files[j]}${8 - i}`\<close>; \<open>files[j]\<close> outside the
  array is \<open>undefined\<close>, which the template renders as the word.
\<close>

definition coordsToSquare :: "int \<Rightarrow> int \<Rightarrow> string" where
  "coordsToSquare i j =
     (if 0 \<le> j \<and> j < 8 then [files ! nat j] else ''undefined'') @ num_str (8 - i)"

text \<open>
  \<open>squareToCoords(square)\<close> returns \<open>{i: 8 - parseInt(square[1]), j: files.indexOf(square[0])}\<close>.
  It has no validation and no \<open>throw\<close>; \<open>8 - NaN\<close> is \<open>NaN\<close>.
\<close>

definition squareToCoords :: "string \<Rightarrow> int option \<times> int" where
  "squareToCoords square =
     (let rank = parseInt (char_at square 1)
      in (case rank of None \<Rightarrow> None | Some r \<Rightarrow> Some (8 - r),
          indexOf files (char_at square 0)))"


definition validCell :: "int \<Rightarrow> int \<Rightarrow> bool" where
  "validCell i j = (0 \<le> i \<and> i < 8 \<and> 0 \<le> j \<and> j < 8)"

definition ranks :: "char list" where
  "ranks = ''12345678''"

text \<open>The 64 square names \<open>a1\<close> .. \<open>h8\<close>, and what a well-formed square string is.\<close>

definition squares64 :: "string list" where
  "squares64 = concat (map (\<lambda>f. map (\<lambda>r. [f, r]) ranks) files)"

definition wellFormedSquare :: "string \<Rightarrow> bool" where
  "wellFormedSquare s = (length s = 2 \<and> s ! 0 \<in> set files \<and> s ! 1 \<in> set ranks)"

section \<open>Rules provider (the chess.js library)\<close>

datatype color = White | Black

datatype ptype = Pawn | Knight | Bishop | Rook | Queen | King

datatype piece = Piece (ptype_of: ptype) (color_of: color)

fun opp :: "color \<Rightarrow> color" where
  "opp White = Black"
| "opp Black = White"

text \<open>A verbose move object of the library (\<open>Move\<close>): the fields the game and the bot read.\<close>

record vmove =
  mv_from :: string
  mv_to :: string
  mv_promotion :: "ptype option"
  mv_san :: string

text \<open>
  The state of one \<open>Chess\<close> instance as its FEN describes it: the occupant of every
  square (\<open>chess.get\<close>), the side to move (\<open>chess.turn()\<close>) and the remaining FEN fields
  (castling rights, en-passant square, clocks). The list of moves played on the instance,
  which only \<open>getLastMove\<close> and the library's repetition rule read, is left out.
\<close>

record position =
  board :: "string \<Rightarrow> piece option"
  turn :: color
  fen_tail :: string

text \<open>
  The library is not part of the repository. What it computes is a parameter of the model:
  \<^item> \<open>legal p\<close>: \<open>chess.moves({verbose: true})\<close>, the legal moves of the side to move, in the
    order the library generates them;
  \<^item> \<open>after p m\<close>: the board, side to move and FEN tail once the generated move \<open>m\<close> is made;
  \<open>in_checkmate\<close>, \<open>in_draw\<close>: \<open>isCheckmate()\<close>, \<open>isDraw()\<close>;
  \<^item> \<open>fen_ok p\<close>: whether \<open>new Chess(fen)\<close> and \<open>load(fen)\<close> accept the FEN of \<open>p\<close>;
  \<^item> \<open>strict\<close>: whether \<open>move()\<close> raises on an illegal request (newer versions) instead of
    returning \<open>null\<close>.
\<close>

record rules =
  legal :: "position \<Rightarrow> vmove list"
  after :: "position \<Rightarrow> vmove \<Rightarrow> position"
  in_checkmate :: "position \<Rightarrow> bool"
  in_draw :: "position \<Rightarrow> bool"
  fen_ok :: "position \<Rightarrow> bool"
  strict :: bool

text \<open>\<open>chess.moves({square, verbose: true})\<close>: the legal moves that start on the square.\<close>

definition chess_moves :: "rules \<Rightarrow> position \<Rightarrow> string \<Rightarrow> vmove list" where
  "chess_moves rp p square = filter (\<lambda>m. mv_from m = square) (legal rp p)"

text \<open>
  \<open>chess.move({from, to, promotion})\<close>: the first legal move with these squares whose
  promotion, if it has one, is the requested one; the instance then holds the position after it.
  \<open>None\<close>: the request matches no legal move (the library returns \<open>null\<close> or raises).
\<close>

definition matches :: "string \<Rightarrow> string \<Rightarrow> ptype \<Rightarrow> vmove \<Rightarrow> bool" where
  "matches f t promo m =
     (mv_from m = f \<and> mv_to m = t \<and> (mv_promotion m = None \<or> mv_promotion m = Some promo))"

definition chess_move :: "rules \<Rightarrow> position \<Rightarrow> string \<Rightarrow> string \<Rightarrow> ptype \<Rightarrow> position option" where
  "chess_move rp p f t promo =
     (case find (matches f t promo) (legal rp p) of
        None \<Rightarrow> None
      | Some m \<Rightarrow> Some (after rp p m))"

text \<open>
  \<open>chess.fen()\<close> followed by \<open>new Chess(fen)\<close> or \<open>load(fen)\<close>: the same board, side to move
  and FEN tail, or a raised error when the library rejects the FEN.
\<close>

definition load_fen :: "rules \<Rightarrow> position \<Rightarrow> position option" where
  "load_fen rp p = (if fen_ok rp p then Some p else None)"

text \<open>\<open>chess.remove(square)\<close> empties the square.\<close>

definition chess_remove :: "position \<Rightarrow> string \<Rightarrow> position" where
  "chess_remove p square = p\<lparr>board := (board p)(square := None)\<rparr>"

text \<open>The standard starting position, loaded by \<open>new Chess()\<close> and \<open>chess.reset()\<close>.\<close>

definition back_rank :: "ptype list" where
  "back_rank = [Rook, Knight, Bishop, Queen, King, Bishop, Knight, Rook]"

definition start_squares :: "(string \<times> piece) list" where
  "start_squares =
     map (\<lambda>(f, t). ([f, CHR ''8''], Piece t Black)) (zip files back_rank) @
     map (\<lambda>f. ([f, CHR ''7''], Piece Pawn Black)) files @
     map (\<lambda>f. ([f, CHR ''2''], Piece Pawn White)) files @
     map (\<lambda>(f, t). ([f, CHR ''1''], Piece t White)) (zip files back_rank)"

definition start_position :: position where
  "start_position =
     \<lparr>board = map_of start_squares, turn = White, fen_tail = ''KQkq - 0 1''\<rparr>"

section \<open>Game state (Game.ts)\<close>

record cell =
  ci :: int
  cj :: int

record dangerZone =
  dz_position :: cell
  dz_timestamp :: nat
  dz_active :: bool

datatype level = Facil | Medio | Dificil

record gameSettings =
  mode :: string
  playerColor :: "color option"
  botLevel :: "level option"
  dangerZonesEnabled :: "bool option"

text \<open>What \<open>getPiece\<close> returns: an object with \<open>id\<close> and \<open>color\<close>, and no other property.\<close>

record pieceData =
  pd_id :: nat
  pd_color :: color

datatype gameResult = Brancas | Pretas | Empate | NoResult

text \<open>
  A task scheduled with \<open>window.setTimeout\<close>: the handle, the time it is due and the cell
  its closure captured.
\<close>

record task =
  task_id :: nat
  task_due :: nat
  task_cell :: cell

text \<open>
  The fields of \<open>Game\<close>, followed by the part of the environment its methods act on: the
  tasks pending in the window, the next timer handle, the clock read by \<open>Date.now()\<close>, and
  the winners passed so far to the registered king-caught callback. The callback field
  itself only records whether one is registered.
\<close>

record game =
  chess :: position
  redoStack :: "vmove list"
  dangerZones :: "dangerZone list"
  dangerZoneTimers :: "(string \<times> nat) list"
  lastDangerSide :: color
  dangerZoneQueue :: "cell list"
  winner :: "color option"
  kingCaughtCallback :: bool
  humanColor :: "color option"
  settings :: "gameSettings option"
  pending :: "task list"
  nextTimer :: nat
  clock :: nat
  caught :: "color list"

definition newGame :: game where
  "newGame = \<lparr>chess = start_position, redoStack = [], dangerZones = [], dangerZoneTimers = [],
     lastDangerSide = Black, dangerZoneQueue = [], winner = None, kingCaughtCallback = False,
     humanColor = None, settings = None, pending = [], nextTimer = 1, clock = 0, caught = []\<rparr>"

definition setSettings :: "game \<Rightarrow> gameSettings \<Rightarrow> game" where
  "setSettings g s = g\<lparr>settings := Some s\<rparr>"

definition areDangerZonesEnabled :: "game \<Rightarrow> bool" where
  "areDangerZonesEnabled g =
     (case settings g of None \<Rightarrow> True
      | Some s \<Rightarrow> (case dangerZonesEnabled s of None \<Rightarrow> True | Some b \<Rightarrow> b))"

definition setKingCaughtCallback :: "game \<Rightarrow> game" where
  "setKingCaughtCallback g = g\<lparr>kingCaughtCallback := True\<rparr>"

definition setHumanColor :: "game \<Rightarrow> color \<Rightarrow> game" where
  "setHumanColor g c = g\<lparr>humanColor := Some c\<rparr>"

definition isHumanPlayer :: "game \<Rightarrow> color \<Rightarrow> bool" where
  "isHumanPlayer g c = (humanColor g = Some c)"

text \<open>The map key of a cell: the template \<open>`${position.i},${position.j}`\<close>.\<close>

definition key_of :: "cell \<Rightarrow> string" where
  "key_of c = num_str (ci c) @ '','' @ num_str (cj c)"

fun pieceToId :: "piece \<Rightarrow> nat" where
  "pieceToId (Piece t c) =
     (let n = (case t of King \<Rightarrow> 1 | Queen \<Rightarrow> 2 | Rook \<Rightarrow> 3 | Bishop \<Rightarrow> 4 | Knight \<Rightarrow> 5 | Pawn \<Rightarrow> 6)
      in if c = White then n else n + 6)"

definition getPieceTypeAt :: "game \<Rightarrow> int \<Rightarrow> int \<Rightarrow> ptype option" where
  "getPieceTypeAt g i j =
     (case board (chess g) (coordsToSquare i j) of None \<Rightarrow> None | Some pc \<Rightarrow> Some (ptype_of pc))"

definition getPiece :: "game \<Rightarrow> int \<Rightarrow> int \<Rightarrow> pieceData option" where
  "getPiece g i j =
     (case board (chess g) (coordsToSquare i j) of None \<Rightarrow> None
      | Some pc \<Rightarrow> Some \<lparr>pd_id = pieceToId pc, pd_color = color_of pc\<rparr>)"

text \<open>The nested iteration \<open>for i in 0..7, for j in 0..7\<close>, row by row.\<close>

definition cells8 :: "(int \<times> int) list" where
  "cells8 = concat (map (\<lambda>i. map (\<lambda>j. (i, j)) [0..7]) [0..7])"

text \<open>
  \<open>isBoardValid(fen)\<close>: the FEN must load, and \<open>board().flat()\<close> must hold a white king and
  a black king.
\<close>

definition board_flat :: "position \<Rightarrow> piece option list" where
  "board_flat p = map (\<lambda>(i, j). board p (coordsToSquare i j)) cells8"

definition isBoardValid :: "rules \<Rightarrow> position \<Rightarrow> bool" where
  "isBoardValid rp p =
     (case load_fen rp p of
        None \<Rightarrow> False
      | Some t \<Rightarrow>
          (let pieces = board_flat t;
               hasWhiteKing = list_ex (\<lambda>x. x = Some (Piece King White)) pieces;
               hasBlackKing = list_ex (\<lambda>x. x = Some (Piece King Black)) pieces
           in hasWhiteKing \<and> hasBlackKing))"

text \<open>
  \<open>removePieceAt\<close>: refuses an empty square and a king; otherwise removes the piece on a
  copy and loads the copy only when \<open>isBoardValid\<close> accepts it. Every raised error is
  caught and answered with \<open>false\<close>.
\<close>

definition removePieceAt :: "rules \<Rightarrow> game \<Rightarrow> cell \<Rightarrow> game \<times> bool" where
  "removePieceAt rp g position =
     (let square = coordsToSquare (ci position) (cj position)
      in case board (chess g) square of
           None \<Rightarrow> (g, False)
         | Some pc \<Rightarrow>
             if ptype_of pc = King then (g, False)
             else (case load_fen rp (chess g) of
                     None \<Rightarrow> (g, False)
                   | Some t \<Rightarrow>
                       (let tempChess = chess_remove t square
                        in if isBoardValid rp tempChess
                           then (case load_fen rp tempChess of
                                   None \<Rightarrow> (g, False)
                                 | Some loaded \<Rightarrow> (g\<lparr>chess := loaded\<rparr>, True))
                           else (g, False))))"

text \<open>
  The test \<open>removePieceAt\<close> applies before it removes a piece that is not a king: the
  current FEN loads, and the copy without the piece passes \<open>isBoardValid\<close>.
\<close>

definition removal_accepted :: "rules \<Rightarrow> position \<Rightarrow> string \<Rightarrow> bool" where
  "removal_accepted rp p square =
     (case load_fen rp p of None \<Rightarrow> False | Some t \<Rightarrow> isBoardValid rp (chess_remove t square))"

definition clearTimeout :: "game \<Rightarrow> nat \<Rightarrow> game" where
  "clearTimeout g t = g\<lparr>pending := filter (\<lambda>k. task_id k \<noteq> t) (pending g)\<rparr>"

text \<open>
  \<open>removeDangerZone\<close>: cancels the timer stored under the key (when the stored handle is
  truthy), drops the zone records and the map entry of the key, and then calls
  \<open>removePieceAt\<close> on the cell.
\<close>

definition removeDangerZone :: "rules \<Rightarrow> game \<Rightarrow> cell \<Rightarrow> game" where
  "removeDangerZone rp g position =
     (let key = key_of position;
          g1 = (case map_of (dangerZoneTimers g) key of
                  None \<Rightarrow> g
                | Some t \<Rightarrow> if t \<noteq> 0 then clearTimeout g t else g);
          g2 = g1\<lparr>dangerZones := filter (\<lambda>z. key_of (dz_position z) \<noteq> key) (dangerZones g1),
                  dangerZoneTimers := AList.delete key (dangerZoneTimers g1)\<rparr>
      in fst (removePieceAt rp g2 position))"

text \<open>
  The closure passed to \<open>setTimeout\<close> by \<open>addDangerZone\<close>, run when the task fires.
\<close>

definition expire :: "rules \<Rightarrow> game \<Rightarrow> cell \<Rightarrow> game" where
  "expire rp g position =
     (let currentPiece = getPiece g (ci position) (cj position);
          pieceType = getPieceTypeAt g (ci position) (cj position);
          g1 = (case currentPiece of
                  None \<Rightarrow> g
                | Some cp \<Rightarrow>
                    if pieceType = Some King \<and> isHumanPlayer g (pd_color cp)
                    then (let w = (if pd_color cp = White then Black else White)
                          in g\<lparr>winner := Some w,
                               caught := (if kingCaughtCallback g then caught g @ [w] else caught g)\<rparr>)
                    else if pieceType \<noteq> Some King then fst (removePieceAt rp g position)
                    else g)
      in removeDangerZone rp g1 position)"

definition addDangerZone :: "game \<Rightarrow> cell \<Rightarrow> game" where
  "addDangerZone g position =
     (if \<not> areDangerZonesEnabled g then g
      else let key = key_of position
           in if list_ex (\<lambda>z. key_of (dz_position z) = key) (dangerZones g) then g
              else g\<lparr>dangerZones := dangerZones g @
                         [\<lparr>dz_position = position, dz_timestamp = clock g, dz_active = True\<rparr>],
                      pending := pending g @
                         [\<lparr>task_id = nextTimer g, task_due = clock g + 15000, task_cell = position\<rparr>],
                      nextTimer := nextTimer g + 1,
                      dangerZoneTimers := AList.update key (nextTimer g) (dangerZoneTimers g)\<rparr>)"

definition getDangerZones :: "game \<Rightarrow> dangerZone list" where
  "getDangerZones g = dangerZones g"

definition clearDangerZones :: "game \<Rightarrow> game" where
  "clearDangerZones g =
     (fold (\<lambda>(k, t) a. clearTimeout a t) (dangerZoneTimers g) g)
       \<lparr>dangerZoneTimers := [], dangerZones := [], dangerZoneQueue := []\<rparr>"

definition processDangerQueue :: "game \<Rightarrow> game" where
  "processDangerQueue g =
     (case dangerZoneQueue g of
        [] \<Rightarrow> g
      | position # rest \<Rightarrow> addDangerZone (g\<lparr>dangerZoneQueue := rest\<rparr>) position)"

definition queueDangerZone :: "game \<Rightarrow> cell \<Rightarrow> game" where
  "queueDangerZone g position = g\<lparr>dangerZoneQueue := dangerZoneQueue g @ [position]\<rparr>"

definition isSquareDangerous :: "game \<Rightarrow> int \<Rightarrow> int \<Rightarrow> bool" where
  "isSquareDangerous g i j =
     list_ex (\<lambda>z. ci (dz_position z) = i \<and> cj (dz_position z) = j) (dangerZones g)"

definition movePiece :: "rules \<Rightarrow> game \<Rightarrow> cell \<Rightarrow> cell \<Rightarrow> game \<times> bool" where
  "movePiece rp g from to =
     (case chess_move rp (chess g) (coordsToSquare (ci from) (cj from))
             (coordsToSquare (ci to) (cj to)) Queen of
        None \<Rightarrow> (g, False)
      | Some p \<Rightarrow> (g\<lparr>chess := p\<rparr>, True))"

definition getValidMoves :: "rules \<Rightarrow> game \<Rightarrow> int \<Rightarrow> int \<Rightarrow> (int option \<times> int) list" where
  "getValidMoves rp g i j =
     map (\<lambda>m. squareToCoords (mv_to m)) (chess_moves rp (chess g) (coordsToSquare i j))"

definition reset :: "game \<Rightarrow> game" where
  "reset g = (clearDangerZones g)\<lparr>chess := start_position, redoStack := []\<rparr>"

definition getCurrentTurn :: "game \<Rightarrow> color" where
  "getCurrentTurn g = turn (chess g)"

definition checkGameResult :: "rules \<Rightarrow> game \<Rightarrow> gameResult" where
  "checkGameResult rp g =
     (case winner g of
        Some w \<Rightarrow> (if w = White then Brancas else Pretas)
      | None \<Rightarrow>
          if in_checkmate rp (chess g)
          then (if turn (chess g) = White then Pretas else Brancas)
          else if in_draw rp (chess g) then Empate
          else NoResult)"

text \<open>
  The window runs a pending task: the task leaves the pending set and its closure runs.
  A handle that is not pending (never scheduled, already run, or cancelled) does nothing.
\<close>

definition fire :: "rules \<Rightarrow> game \<Rightarrow> nat \<Rightarrow> game" where
  "fire rp g t =
     (case find (\<lambda>k. task_id k = t) (pending g) of
        None \<Rightarrow> g
      | Some k \<Rightarrow>
          if task_due k \<le> clock g
          then expire rp (g\<lparr>pending := filter (\<lambda>x. task_id x \<noteq> t) (pending g)\<rparr>) (task_cell k)
          else g)"

text \<open>
  What the presentation layer and the window can do to a game: the public methods, the
  passing of time, and the firing of a pending task.
\<close>

datatype op =
    OpSetSettings gameSettings
  | OpSetHumanColor color
  | OpSetKingCaughtCallback
  | OpAddDangerZone cell
  | OpRemoveDangerZone cell
  | OpClearDangerZones
  | OpQueueDangerZone cell
  | OpProcessDangerQueue
  | OpMovePiece cell cell
  | OpReset
  | OpTick nat
  | OpFire nat

fun step :: "rules \<Rightarrow> game \<Rightarrow> op \<Rightarrow> game" where
  "step rp g (OpSetSettings s) = setSettings g s"
| "step rp g (OpSetHumanColor c) = setHumanColor g c"
| "step rp g OpSetKingCaughtCallback = setKingCaughtCallback g"
| "step rp g (OpAddDangerZone c) = addDangerZone g c"
| "step rp g (OpRemoveDangerZone c) = removeDangerZone rp g c"
| "step rp g OpClearDangerZones = clearDangerZones g"
| "step rp g (OpQueueDangerZone c) = queueDangerZone g c"
| "step rp g OpProcessDangerQueue = processDangerQueue g"
| "step rp g (OpMovePiece a b) = fst (movePiece rp g a b)"
| "step rp g OpReset = reset g"
| "step rp g (OpTick d) = g\<lparr>clock := clock g + d\<rparr>"
| "step rp g (OpFire t) = fire rp g t"

definition run :: "rules \<Rightarrow> op list \<Rightarrow> game \<Rightarrow> game" where
  "run rp ops g = foldl (step rp) g ops"

text \<open>At most one zone record per cell.\<close>

definition zones_distinct :: "game \<Rightarrow> bool" where
  "zones_distinct g = distinct (map dz_position (dangerZones g))"

text \<open>How many kings of a colour stand on the 64 squares.\<close>

definition kingCount :: "position \<Rightarrow> color \<Rightarrow> nat" where
  "kingCount p c = length (filter (\<lambda>x. x = Some (Piece King c)) (board_flat p))"

text \<open>
  The contract of the library that turn alternation rests on: making a legal move hands the
  move to the other side.
\<close>

definition turn_contract :: "rules \<Rightarrow> bool" where
  "turn_contract rp = (\<forall>p. \<forall>m \<in> set (legal rp p). turn (after rp p m) = opp (turn p))"

section \<open>Rule sets for concrete runs\<close>

text \<open>
  An ordinary move relocates the piece and passes the turn; \<open>scripted\<close> is a rules provider
  that answers from a given table of legal moves and a given checkmate test, accepts every
  FEN and raises on an illegal request.
\<close>

definition relocate :: "position \<Rightarrow> vmove \<Rightarrow> position" where
  "relocate p m =
     p\<lparr>board := (board p)(mv_from m := None,
          mv_to m := (case mv_promotion m of
                        None \<Rightarrow> board p (mv_from m)
                      | Some t \<Rightarrow> Some (Piece t (turn p)))),
       turn := opp (turn p)\<rparr>"

definition scripted :: "(position \<Rightarrow> vmove list) \<Rightarrow> (position \<Rightarrow> bool) \<Rightarrow> rules" where
  "scripted moves mate =
     \<lparr>legal = moves, after = relocate, in_checkmate = mate, in_draw = (\<lambda>p. False),
      fen_ok = (\<lambda>p. True), strict = True\<rparr>"

definition mv :: "string \<Rightarrow> string \<Rightarrow> ptype option \<Rightarrow> string \<Rightarrow> vmove" where
  "mv f t promo san = \<lparr>mv_from = f, mv_to = t, mv_promotion = promo, mv_san = san\<rparr>"

text \<open>The pawn moves \<open>e4\<close> and \<open>e3\<close> from the starting position, and nothing else.\<close>

definition opening_rules :: rules where
  "opening_rules =
     scripted (\<lambda>p. if turn p = White \<and> board p ''e2'' = Some (Piece Pawn White)
                       \<and> board p ''e3'' = None \<and> board p ''e4'' = None
                    then [mv ''e2'' ''e3'' None ''e3'', mv ''e2'' ''e4'' None ''e4'']
                    else [])
              (\<lambda>p. False)"

definition at :: "int \<Rightarrow> int \<Rightarrow> cell" where
  "at i j = \<lparr>ci = i, cj = j\<rparr>"

text \<open>
  A run in which the human plays White and leaves the king on \<open>e1\<close> while a danger zone on
  that cell expires.
\<close>

definition king_zone_run :: "op list" where
  "king_zone_run =
     [OpSetHumanColor White, OpSetKingCaughtCallback, OpAddDangerZone (at 7 4), OpTick 15000]"

definition king_caught_run :: "op list" where
  "king_caught_run = king_zone_run @ [OpFire 1]"

text \<open>A run in which a danger zone is put on the pawn's cell \<open>e2\<close> and taken away again.\<close>

definition zone_removed_run :: "op list" where
  "zone_removed_run = [OpAddDangerZone (at 6 4), OpRemoveDangerZone (at 6 4)]"

text \<open>A run in which a danger zone on the pawn's cell \<open>e2\<close> expires.\<close>

definition pawn_expiry_run :: "op list" where
  "pawn_expiry_run = [OpAddDangerZone (at 6 4), OpTick 15000]"

section \<open>The danger-zone array as a heap object\<close>

text \<open>
  \<open>getDangerZones\<close> returns \<open>[...this._dangerZones]\<close>: a new array holding the same zone
  objects. To speak about a caller that mutates the returned array, arrays and zone
  objects live in a store: an array is a list of object addresses.
\<close>

record heap =
  arrays :: "nat \<Rightarrow> nat list"
  objects :: "nat \<Rightarrow> dangerZone"
  zonesRef :: nat
  nextAddr :: nat

text \<open>The zone list the game sees through \<open>this._dangerZones\<close>.\<close>

definition h_zones :: "heap \<Rightarrow> dangerZone list" where
  "h_zones h = map (objects h) (arrays h (zonesRef h))"

definition read_array :: "heap \<Rightarrow> nat \<Rightarrow> dangerZone list" where
  "read_array h r = map (objects h) (arrays h r)"

definition getDangerZones_ref :: "heap \<Rightarrow> heap \<times> nat" where
  "getDangerZones_ref h =
     (h\<lparr>arrays := (arrays h)(nextAddr h := arrays h (zonesRef h)), nextAddr := nextAddr h + 1\<rparr>,
      nextAddr h)"

definition isSquareDangerous_ref :: "heap \<Rightarrow> int \<Rightarrow> int \<Rightarrow> bool" where
  "isSquareDangerous_ref h i j =
     list_ex (\<lambda>z. ci (dz_position z) = i \<and> cj (dz_position z) = j) (h_zones h)"

text \<open>
  What a caller can do to an array it holds: add entries (a new zone object, or a
  reference it already has) and remove entries.
\<close>

datatype arr_op =
    Push dangerZone
  | PushRef nat
  | Unshift dangerZone
  | Pop
  | Shift
  | Splice nat nat
  | SetLength nat

fun mutate :: "nat \<Rightarrow> heap \<Rightarrow> arr_op \<Rightarrow> heap" where
  "mutate r h (Push z) =
     h\<lparr>objects := (objects h)(nextAddr h := z), arrays := (arrays h)(r := arrays h r @ [nextAddr h]),
       nextAddr := nextAddr h + 1\<rparr>"
| "mutate r h (PushRef a) = h\<lparr>arrays := (arrays h)(r := arrays h r @ [a])\<rparr>"
| "mutate r h (Unshift z) =
     h\<lparr>objects := (objects h)(nextAddr h := z), arrays := (arrays h)(r := nextAddr h # arrays h r),
       nextAddr := nextAddr h + 1\<rparr>"
| "mutate r h Pop = h\<lparr>arrays := (arrays h)(r := butlast (arrays h r))\<rparr>"
| "mutate r h Shift = h\<lparr>arrays := (arrays h)(r := tl (arrays h r))\<rparr>"
| "mutate r h (Splice start n) =
     h\<lparr>arrays := (arrays h)(r := take start (arrays h r) @ drop (start + n) (arrays h r))\<rparr>"
| "mutate r h (SetLength n) = h\<lparr>arrays := (arrays h)(r := take n (arrays h r))\<rparr>"

text \<open>Allocated addresses lie below \<open>nextAddr\<close>.\<close>

definition heap_ok :: "heap \<Rightarrow> bool" where
  "heap_ok h = (zonesRef h < nextAddr h \<and> list_all (\<lambda>a. a < nextAddr h) (arrays h (zonesRef h)))"

definition example_heap :: heap where
  "example_heap =
     \<lparr>arrays = (\<lambda>a. []) (0 := [1, 2]),
      objects = (\<lambda>a. \<lparr>dz_position = at 0 0, dz_timestamp = 0, dz_active = True\<rparr>)
                  (2 := \<lparr>dz_position = at 4 4, dz_timestamp = 7, dz_active = True\<rparr>),
      zonesRef = 0, nextAddr = 3\<rparr>"

section \<open>Bot move selection (BotService.ts)\<close>

text \<open>
  The remaining methods of \<open>Game\<close> that the bot calls. A target cell comes from
  \<open>squareToCoords\<close>, so its row may be \<open>NaN\<close>: the template then renders \<open>NaN\<close>, and every
  comparison \<open>===\<close> with it is false.
\<close>

definition coordsToSquareN :: "int option \<Rightarrow> int \<Rightarrow> string" where
  "coordsToSquareN i j =
     (case i of
        Some r \<Rightarrow> coordsToSquare r j
      | None \<Rightarrow> (if 0 \<le> j \<and> j < 8 then [files ! nat j] else ''undefined'') @ ''NaN'')"

definition getPieceN :: "game \<Rightarrow> int option \<Rightarrow> int \<Rightarrow> pieceData option" where
  "getPieceN g i j =
     (case board (chess g) (coordsToSquareN i j) of None \<Rightarrow> None
      | Some pc \<Rightarrow> Some \<lparr>pd_id = pieceToId pc, pd_color = color_of pc\<rparr>)"

definition isSquareDangerousN :: "game \<Rightarrow> int option \<Rightarrow> int \<Rightarrow> bool" where
  "isSquareDangerousN g i j = (case i of None \<Rightarrow> False | Some r \<Rightarrow> isSquareDangerous g r j)"

definition isSquareDefended :: "rules \<Rightarrow> game \<Rightarrow> int option \<Rightarrow> int \<Rightarrow> color \<Rightarrow> bool" where
  "isSquareDefended rp g i j c =
     list_ex (\<lambda>(x, y). case getPiece g x y of
                 None \<Rightarrow> False
               | Some piece \<Rightarrow> pd_color piece = c \<and>
                   list_ex (\<lambda>move. fst move \<noteq> None \<and> fst move = i \<and> snd move = j)
                     (getValidMoves rp g x y))
       cells8"

text \<open>
  \<open>BotService\<close> reads \<open>piece.type\<close> from the objects \<open>getPiece\<close> returns. Those objects are
  built as \<open>{id, color}\<close>, so the property is absent and the read gives \<open>undefined\<close>.
\<close>

definition pd_type :: "pieceData \<Rightarrow> ptype option" where
  "pd_type d = None"

text \<open>The move objects the bot builds: \<open>{from, to, piece, captured}\<close>.\<close>

record bmove =
  bm_from :: string
  bm_to :: string
  bm_piece :: "ptype option"
  bm_captured :: "ptype option"

record botService =
  nivel :: level
  cor :: color
  isProcessing :: bool
  recentMoves :: "bmove list"

fun pieceValues :: "ptype \<Rightarrow> nat" where
  "pieceValues Pawn = 100"
| "pieceValues Knight = 280"
| "pieceValues Bishop = 320"
| "pieceValues Rook = 479"
| "pieceValues Queen = 929"
| "pieceValues King = 60000"

definition getCapturedPiece :: "game \<Rightarrow> color \<Rightarrow> int option \<Rightarrow> int \<Rightarrow> ptype option" where
  "getCapturedPiece g c i j =
     (case getPieceN g i j of
        None \<Rightarrow> None
      | Some piece \<Rightarrow> if pd_color piece \<noteq> c then pd_type piece else None)"

definition bot_getValidMoves :: "rules \<Rightarrow> game \<Rightarrow> color \<Rightarrow> bmove list" where
  "bot_getValidMoves rp g c =
     concat (map (\<lambda>(i, j).
        case getPiece g i j of
          None \<Rightarrow> []
        | Some piece \<Rightarrow>
            if pd_color piece = c
            then map (\<lambda>target.
                   \<lparr>bm_from = coordsToSquare i j,
                    bm_to = coordsToSquareN (fst target) (snd target),
                    bm_piece = pd_type piece,
                    bm_captured = getCapturedPiece g c (fst target) (snd target)\<rparr>)
                 (getValidMoves rp g i j)
            else [])
       cells8)"

text \<open>
  An error raised inside move selection (the library rejecting a FEN or, when strict, an
  illegal move request). \<open>fazerMovimento\<close> catches it and answers \<open>null\<close>.
\<close>

datatype fault = Fault

text \<open>
  \<open>chess.move({...move, promotion: 'q'})\<close> on a fresh instance loaded with the game's FEN:
  the move object made and the position the fresh instance then holds.
\<close>

definition try_move :: "rules \<Rightarrow> game \<Rightarrow> bmove \<Rightarrow> fault + (vmove \<times> position) option" where
  "try_move rp g move =
     (case load_fen rp (chess g) of
        None \<Rightarrow> Inl Fault
      | Some t \<Rightarrow>
          (case find (matches (bm_from move) (bm_to move) Queen) (legal rp t) of
             None \<Rightarrow> if strict rp then Inl Fault else Inr None
           | Some m \<Rightarrow> Inr (Some (m, after rp t m))))"

definition isCheckmateMove :: "rules \<Rightarrow> game \<Rightarrow> bmove \<Rightarrow> fault + bool" where
  "isCheckmateMove rp g move =
     (case try_move rp g move of
        Inl e \<Rightarrow> Inl e
      | Inr None \<Rightarrow> Inr False
      | Inr (Some (m, q)) \<Rightarrow> Inr (in_checkmate rp q))"

definition moveGivesCheck :: "rules \<Rightarrow> game \<Rightarrow> bmove \<Rightarrow> fault + bool" where
  "moveGivesCheck rp g move =
     (case try_move rp g move of
        Inl e \<Rightarrow> Inl e
      | Inr None \<Rightarrow> Inr False
      | Inr (Some (m, q)) \<Rightarrow> Inr (CHR ''+'' \<in> set (mv_san m)))"

text \<open>\<open>Array.find\<close> and \<open>Array.filter\<close> with a predicate that may raise.\<close>

fun find_first :: "('a \<Rightarrow> fault + bool) \<Rightarrow> 'a list \<Rightarrow> fault + 'a option" where
  "find_first P [] = Inr None"
| "find_first P (x # xs) =
     (case P x of Inl e \<Rightarrow> Inl e | Inr True \<Rightarrow> Inr (Some x) | Inr False \<Rightarrow> find_first P xs)"

fun filter_all :: "('a \<Rightarrow> fault + bool) \<Rightarrow> 'a list \<Rightarrow> fault + 'a list" where
  "filter_all P [] = Inr []"
| "filter_all P (x # xs) =
     (case P x of
        Inl e \<Rightarrow> Inl e
      | Inr b \<Rightarrow> (case filter_all P xs of
                    Inl e \<Rightarrow> Inl e
                  | Inr ys \<Rightarrow> Inr (if b then x # ys else ys)))"

definition findCheckmateMove :: "rules \<Rightarrow> game \<Rightarrow> color \<Rightarrow> fault + bmove option" where
  "findCheckmateMove rp g c = find_first (isCheckmateMove rp g) (bot_getValidMoves rp g c)"

text \<open>
  Tier 2: the captures of a piece worth at least a rook, sorted by captured value,
  highest first (\<open>Array.sort\<close> is stable); only the first is looked at.
\<close>

definition capturedValue :: "bmove \<Rightarrow> nat" where
  "capturedValue m = (case bm_captured m of None \<Rightarrow> 0 | Some t \<Rightarrow> pieceValues t)"

definition valuableCapture :: "bmove list \<Rightarrow> bmove option" where
  "valuableCapture moves =
     (case sort_key (\<lambda>m. - int (capturedValue m))
             (filter (\<lambda>m. bm_captured m \<noteq> None \<and> pieceValues Rook \<le> capturedValue m) moves) of
        [] \<Rightarrow> None
      | m # rest \<Rightarrow> Some m)"

definition toPos :: "bmove \<Rightarrow> int option \<times> int" where
  "toPos m = squareToCoords (bm_to m)"

definition findKingPosition :: "game \<Rightarrow> color \<Rightarrow> cell option" where
  "findKingPosition g c =
     (case find (\<lambda>(i, j). case getPiece g i j of
                    None \<Rightarrow> False
                  | Some piece \<Rightarrow> pd_type piece = Some King \<and> pd_color piece = c)
             cells8 of
        None \<Rightarrow> None
      | Some (i, j) \<Rightarrow> Some \<lparr>ci = i, cj = j\<rparr>)"

text \<open>
  Tier 3. Only the search for the king is modelled; \<open>rest\<close> stands for the remainder of
  \<open>getKingDefenseMove\<close>, which runs when a king position was found.
\<close>

definition getKingDefenseMove :: "(cell \<Rightarrow> bmove option) \<Rightarrow> game \<Rightarrow> color \<Rightarrow> bmove option" where
  "getKingDefenseMove rest g c =
     (case findKingPosition g c of None \<Rightarrow> None | Some kingPos \<Rightarrow> rest kingPos)"

text \<open>Tier 4.\<close>

definition captureRank :: "bmove \<Rightarrow> nat" where
  "captureRank m =
     capturedValue m + (if pieceValues Queen \<le> capturedValue m then 500 else 0)"

definition isValuableCapture :: "bmove \<Rightarrow> bool" where
  "isValuableCapture m =
     (case (bm_captured m, bm_piece m) of
        (Some t, Some p) \<Rightarrow> 3 * pieceValues p \<le> 2 * pieceValues t
      | _ \<Rightarrow> False)"

definition findSafeCapture :: "rules \<Rightarrow> game \<Rightarrow> color \<Rightarrow> bmove list \<Rightarrow> bmove option" where
  "findSafeCapture rp g c moves =
     find (\<lambda>m. (bm_captured m = Some Queen \<or> isValuableCapture m)
                \<or> (\<not> isSquareDangerousN g (fst (toPos m)) (snd (toPos m))
                    \<or> isSquareDefended rp g (fst (toPos m)) (snd (toPos m)) c))
       (sort_key (\<lambda>m. - int (captureRank m)) (filter (\<lambda>m. bm_captured m \<noteq> None) moves))"

text \<open>
  Tier 5. \<open>safeMove\<close> stands for \<open>findSafeMoveForPiece\<close>, which is called only for a
  threatened piece whose \<open>type\<close> was read.
\<close>

definition typeValue :: "pieceData \<Rightarrow> nat" where
  "typeValue d = (case pd_type d of None \<Rightarrow> 0 | Some t \<Rightarrow> pieceValues t)"

definition findThreatenedPieces :: "game \<Rightarrow> color \<Rightarrow> (cell \<times> pieceData) list" where
  "findThreatenedPieces g c =
     sort_key (\<lambda>x. - int (typeValue (snd x)))
       (concat (map (\<lambda>(i, j).
          case getPiece g i j of
            None \<Rightarrow> []
          | Some piece \<Rightarrow>
              if pd_color piece = c \<and> isSquareDangerous g i j
              then [(\<lparr>ci = i, cj = j\<rparr>, piece)] else [])
        cells8))"

definition worthRescuing :: "bmove list \<Rightarrow> pieceData \<Rightarrow> bool" where
  "worthRescuing moves d =
     (case pd_type d of
        None \<Rightarrow> False
      | Some t \<Rightarrow>
          \<not> list_ex (\<lambda>m. 3 * pieceValues t < 2 * capturedValue m)
              (filter (\<lambda>m. bm_captured m \<noteq> None) moves)
          \<and> 3 * pieceValues Pawn \<le> 2 * pieceValues t)"

definition findPieceRescueMove ::
  "(cell \<Rightarrow> bmove option) \<Rightarrow> game \<Rightarrow> color \<Rightarrow> bmove list \<Rightarrow> bmove option" where
  "findPieceRescueMove safeMove g c moves =
     (let threatenedPieces = findThreatenedPieces g c;
          queenRescue = (case find (\<lambda>x. pd_type (snd x) = Some Queen) threatenedPieces of
                           None \<Rightarrow> None
                         | Some x \<Rightarrow> safeMove (fst x))
      in case queenRescue of
           Some m \<Rightarrow> Some m
         | None \<Rightarrow>
             (case filter (\<lambda>r. r \<noteq> None)
                     (map (\<lambda>x. safeMove (fst x))
                        (sort_key (\<lambda>x. - int (typeValue (snd x)))
                           (filter (\<lambda>x. worthRescuing moves (snd x)) threatenedPieces))) of
                [] \<Rightarrow> None
              | r # rs \<Rightarrow> r))"

text \<open>
  Level dispatch. The easy level is modelled: \<open>draw n\<close> is the index
  \<open>Math.floor(Math.random() * n)\<close> that the random source yields for a list of \<open>n\<close> moves.
  The medium and hard levels (a scored choice with a random pick, and a minimax search
  over randomly ordered moves) are the parameter \<open>searched\<close>.
\<close>

definition pick :: "(nat \<Rightarrow> nat) \<Rightarrow> 'a list \<Rightarrow> 'a option" where
  "pick draw xs = (if draw (length xs) < length xs then Some (xs ! draw (length xs)) else None)"

definition fazerMovimentoFacil ::
  "rules \<Rightarrow> (nat \<Rightarrow> nat) \<Rightarrow> game \<Rightarrow> bmove list \<Rightarrow> fault + bmove option" where
  "fazerMovimentoFacil rp draw g moves =
     (case filter_all (\<lambda>m. if bm_captured m \<noteq> None then Inr True else moveGivesCheck rp g m) moves of
        Inl e \<Rightarrow> Inl e
      | Inr goodMoves \<Rightarrow>
          Inr (if 0 < length goodMoves then pick draw goodMoves else pick draw moves))"

record chance =
  draw :: "nat \<Rightarrow> nat"
  searched :: "level \<Rightarrow> fault + bmove option"
  kingDefenseRest :: "cell \<Rightarrow> bmove option"
  safeMoveForPiece :: "cell \<Rightarrow> bmove option"

definition selectMoveByLevel ::
  "rules \<Rightarrow> chance \<Rightarrow> game \<Rightarrow> botService \<Rightarrow> fault + bmove option" where
  "selectMoveByLevel rp ch g bt =
     (let moves = bot_getValidMoves rp g (cor bt)
      in case findCheckmateMove rp g (cor bt) of
           Inl e \<Rightarrow> Inl e
         | Inr (Some mateMove) \<Rightarrow> Inr (Some mateMove)
         | Inr None \<Rightarrow>
             (case (case valuableCapture moves of
                      None \<Rightarrow> None
                    | Some m \<Rightarrow> if \<not> isSquareDangerousN g (fst (toPos m)) (snd (toPos m))
                                then Some m else None) of
                Some m \<Rightarrow> Inr (Some m)
              | None \<Rightarrow>
                  (case getKingDefenseMove (kingDefenseRest ch) g (cor bt) of
                     Some m \<Rightarrow> Inr (Some m)
                   | None \<Rightarrow>
                       (case findSafeCapture rp g (cor bt) moves of
                          Some m \<Rightarrow> Inr (Some m)
                        | None \<Rightarrow>
                            (case findPieceRescueMove (safeMoveForPiece ch) g (cor bt) moves of
                               Some m \<Rightarrow> Inr (Some m)
                             | None \<Rightarrow>
                                 (case nivel bt of
                                    Facil \<Rightarrow> fazerMovimentoFacil rp (draw ch) g moves
                                  | Medio \<Rightarrow> searched ch Medio
                                  | Dificil \<Rightarrow> searched ch Dificil))))))"

definition deveJogar :: "game \<Rightarrow> botService \<Rightarrow> bool" where
  "deveJogar g bt = (getCurrentTurn g = cor bt \<and> \<not> isProcessing bt)"

definition updateRecentMoves :: "botService \<Rightarrow> bmove \<Rightarrow> botService" where
  "updateRecentMoves bt move =
     bt\<lparr>recentMoves := (let r = move # recentMoves bt in if 4 < length r then butlast r else r)\<rparr>"

definition fazerMovimento ::
  "rules \<Rightarrow> chance \<Rightarrow> game \<Rightarrow> botService \<Rightarrow> botService \<times> bmove option" where
  "fazerMovimento rp ch g bt =
     (if \<not> deveJogar g bt then (bt, None)
      else case selectMoveByLevel rp ch g bt of
             Inl e \<Rightarrow> (bt\<lparr>isProcessing := False\<rparr>, None)
           | Inr None \<Rightarrow> (bt\<lparr>isProcessing := False\<rparr>, None)
           | Inr (Some move) \<Rightarrow> ((updateRecentMoves bt move)\<lparr>isProcessing := False\<rparr>, Some move))"

text \<open>
  The library's contract that the bot relies on at a position: every legal move names two
  well-formed squares, and a move that promotes can also be made promoting to a queen.
\<close>

definition moves_contract :: "rules \<Rightarrow> position \<Rightarrow> bool" where
  "moves_contract rp p =
     (\<forall>m \<in> set (legal rp p).
        wellFormedSquare (mv_from m) \<and> wellFormedSquare (mv_to m)
        \<and> (\<exists>q \<in> set (legal rp p). matches (mv_from m) (mv_to m) Queen q))"

text \<open>
  A position in which White can mate only by promoting to a knight: White Ka1 and pawn f7,
  Black Kh7, Rh8, Ng8 and pawns g7, h6, White to move. The rule set lists White's legal
  moves there (the pawn's eight promotions, then the king's three moves) and knows the
  one mate, \<open>f8=N#\<close>.
\<close>

definition knight_mate_position :: position where
  "knight_mate_position =
     \<lparr>board = map_of
        [(''a1'', Piece King White), (''f7'', Piece Pawn White),
         (''h7'', Piece King Black), (''h8'', Piece Rook Black), (''g8'', Piece Knight Black),
         (''g7'', Piece Pawn Black), (''h6'', Piece Pawn Black)],
      turn = White, fen_tail = ''- - 0 1''\<rparr>"

definition knight_mate_rules :: rules where
  "knight_mate_rules =
     scripted
       (\<lambda>p. if turn p = White \<and> board p ''f7'' = Some (Piece Pawn White)
              \<and> board p ''a1'' = Some (Piece King White)
            then [mv ''f7'' ''f8'' (Some Queen) ''f8=Q'', mv ''f7'' ''f8'' (Some Rook) ''f8=R'',
                  mv ''f7'' ''f8'' (Some Bishop) ''f8=B'', mv ''f7'' ''f8'' (Some Knight) ''f8=N#'',
                  mv ''f7'' ''g8'' (Some Queen) ''fxg8=Q+'', mv ''f7'' ''g8'' (Some Rook) ''fxg8=R'',
                  mv ''f7'' ''g8'' (Some Bishop) ''fxg8=B+'', mv ''f7'' ''g8'' (Some Knight) ''fxg8=N'',
                  mv ''a1'' ''a2'' None ''Ka2'', mv ''a1'' ''b2'' None ''Kb2'',
                  mv ''a1'' ''b1'' None ''Kb1'']
            else [])
       (\<lambda>p. turn p = Black \<and> board p ''f8'' = Some (Piece Knight White)
              \<and> board p ''h7'' = Some (Piece King Black))"

definition knight_mate_game :: game where
  "knight_mate_game = newGame\<lparr>chess := knight_mate_position\<rparr>"

text \<open>
  A position in which Black can take a rook on a square without a danger zone: Black Ka8
  and pawn e5, White Kh1 and Rf4, Black to move. The rule set lists Black's five legal
  moves there; none gives check or mate.
\<close>

definition rook_capture_position :: position where
  "rook_capture_position =
     \<lparr>board = map_of
        [(''a8'', Piece King Black), (''e5'', Piece Pawn Black),
         (''h1'', Piece King White), (''f4'', Piece Rook White)],
      turn = Black, fen_tail = ''- - 0 1''\<rparr>"

definition rook_capture_rules :: rules where
  "rook_capture_rules =
     scripted
       (\<lambda>p. if turn p = Black \<and> board p ''e5'' = Some (Piece Pawn Black)
              \<and> board p ''a8'' = Some (Piece King Black) \<and> board p ''f4'' = Some (Piece Rook White)
            then [mv ''a8'' ''b8'' None ''Kb8'', mv ''a8'' ''b7'' None ''Kb7'',
                  mv ''a8'' ''a7'' None ''Ka7'', mv ''e5'' ''e4'' None ''e4'',
                  mv ''e5'' ''f4'' None ''exf4'']
            else [])
       (\<lambda>p. False)"

definition rook_capture_game :: game where
  "rook_capture_game = newGame\<lparr>chess := rook_capture_position\<rparr>"

definition first_draw :: chance where
  "first_draw = \<lparr>draw = (\<lambda>n. 0), searched = (\<lambda>l. Inr None),
     kingDefenseRest = (\<lambda>c. None), safeMoveForPiece = (\<lambda>c. None)\<rparr>"

definition bot_of :: "level \<Rightarrow> color \<Rightarrow> botService" where
  "bot_of l c = \<lparr>nivel = l, cor = c, isProcessing = False, recentMoves = []\<rparr>"

text \<open>
  A position with a mate in one that needs no promotion: White Ra1 and Kg1, Black Kg8 and
  pawns f7, g7, h7, White to move. The rule set lists White's seventeen legal moves there
  (the rook's, then the king's) and knows the mate \<open>Ra8#\<close>.
\<close>

definition back_rank_position :: position where
  "back_rank_position =
     \<lparr>board = map_of
        [(''a1'', Piece Rook White), (''g1'', Piece King White),
         (''g8'', Piece King Black), (''f7'', Piece Pawn Black), (''g7'', Piece Pawn Black),
         (''h7'', Piece Pawn Black)],
      turn = White, fen_tail = ''- - 0 1''\<rparr>"

definition back_rank_rules :: rules where
  "back_rank_rules =
     scripted
       (\<lambda>p. if turn p = White \<and> board p ''a1'' = Some (Piece Rook White)
              \<and> board p ''g1'' = Some (Piece King White)
            then [mv ''a1'' ''a2'' None ''Ra2'', mv ''a1'' ''a3'' None ''Ra3'',
                  mv ''a1'' ''a4'' None ''Ra4'', mv ''a1'' ''a5'' None ''Ra5'',
                  mv ''a1'' ''a6'' None ''Ra6'', mv ''a1'' ''a7'' None ''Ra7'',
                  mv ''a1'' ''a8'' None ''Ra8#'', mv ''a1'' ''b1'' None ''Rb1'',
                  mv ''a1'' ''c1'' None ''Rc1'', mv ''a1'' ''d1'' None ''Rd1'',
                  mv ''a1'' ''e1'' None ''Re1'', mv ''a1'' ''f1'' None ''Rf1'',
                  mv ''g1'' ''f2'' None ''Kf2'', mv ''g1'' ''g2'' None ''Kg2'',
                  mv ''g1'' ''h2'' None ''Kh2'', mv ''g1'' ''h1'' None ''Kh1'',
                  mv ''g1'' ''f1'' None ''Kf1'']
            else [])
       (\<lambda>p. turn p = Black \<and> board p ''a8'' = Some (Piece Rook White)
              \<and> board p ''g8'' = Some (Piece King Black))"

definition back_rank_game :: game where
  "back_rank_game = newGame\<lparr>chess := back_rank_position\<rparr>"

section \<open>Properties of the number rendering\<close>

lemma digit_table: "\<forall>n \<in> set [0..<10]. (of_char (digit_char n) :: nat) = 48 + n"
  by code_simp

lemma of_char_digit: "n < 10 \<Longrightarrow> (of_char (digit_char n) :: nat) = 48 + n"
  using digit_table by simp

lemma digit_char_inj:
  assumes "a < 10" "b < 10" "digit_char a = digit_char b"
  shows "a = b"
proof -
  have "(of_char (digit_char a) :: nat) = of_char (digit_char b)"
    by (simp only: assms(3))
  then have "48 + a = 48 + b"
    by (simp only: of_char_digit [OF assms(1)] of_char_digit [OF assms(2)])
  then show ?thesis by simp
qed

lemma dec_nat_digit: "n < 10 \<Longrightarrow> dec_nat n = [digit_char n]"
  by (simp add: dec_nat.simps)

lemma dec_nat_step: "\<not> n < 10 \<Longrightarrow> dec_nat n = dec_nat (n div 10) @ [digit_char (n mod 10)]"
  by (subst dec_nat.simps) simp

lemma dec_nat_chars: "c \<in> set (dec_nat n) \<Longrightarrow> 48 \<le> (of_char c :: nat) \<and> (of_char c :: nat) \<le> 57"
proof (induction n rule: dec_nat.induct)
  case (1 n)
  show ?case
  proof (cases "n < 10")
    case True
    with "1.prems" show ?thesis by (simp add: dec_nat_digit of_char_digit)
  next
    case False
    have "n mod 10 < 10" by simp
    with False "1.prems" "1.IH" show ?thesis
      by (auto simp: dec_nat_step of_char_digit)
  qed
qed

lemma dec_nat_nonempty: "dec_nat n \<noteq> []"
  by (subst dec_nat.simps) simp

lemma dec_nat_inj: "dec_nat a = dec_nat b \<Longrightarrow> a = b"
proof (induction a arbitrary: b rule: dec_nat.induct)
  case (1 a)
  show ?case
  proof (cases "a < 10")
    case a: True
    show ?thesis
    proof (cases "b < 10")
      case True
      with a "1.prems" show ?thesis by (simp add: dec_nat_digit digit_char_inj)
    next
      case False
      with a "1.prems" dec_nat_nonempty [of "b div 10"] show ?thesis
        by (simp add: dec_nat_digit dec_nat_step)
    qed
  next
    case a: False
    show ?thesis
    proof (cases "b < 10")
      case True
      with a "1.prems" dec_nat_nonempty [of "a div 10"] show ?thesis
        by (simp add: dec_nat_digit dec_nat_step)
    next
      case False
      with a "1.prems" have e: "dec_nat (a div 10) = dec_nat (b div 10)"
        and d: "digit_char (a mod 10) = digit_char (b mod 10)"
        by (simp_all add: dec_nat_step)
      from e a have "a div 10 = b div 10" by (rule "1.IH" [rotated])
      moreover from d have "a mod 10 = b mod 10" by (intro digit_char_inj) simp_all
      ultimately show ?thesis by (metis div_mult_mod_eq)
    qed
  qed
qed

lemma num_str_chars: "c \<in> set (num_str k) \<Longrightarrow> c \<noteq> CHR '',''"
  by (auto simp: num_str_def dest: dec_nat_chars split: if_splits)

lemma dec_nat_no_minus: "dec_nat n \<noteq> CHR ''-'' # s"
proof
  assume "dec_nat n = CHR ''-'' # s"
  then have "CHR ''-'' \<in> set (dec_nat n)" by simp
  from dec_nat_chars [OF this] show False by simp
qed

lemma num_str_inj: "num_str a = num_str b \<Longrightarrow> a = b"
proof -
  assume e: "num_str a = num_str b"
  show ?thesis
  proof (cases "a < 0")
    case a: True
    show ?thesis
    proof (cases "b < 0")
      case True
      with a e have "nat (- a) = nat (- b)" by (simp add: num_str_def dec_nat_inj)
      with a True show ?thesis by simp
    next
      case False
      with a e have "dec_nat (nat b) = CHR ''-'' # dec_nat (nat (- a))" by (simp add: num_str_def)
      with dec_nat_no_minus show ?thesis by blast
    qed
  next
    case a: False
    show ?thesis
    proof (cases "b < 0")
      case True
      with a e have "dec_nat (nat a) = CHR ''-'' # dec_nat (nat (- b))" by (simp add: num_str_def)
      with dec_nat_no_minus show ?thesis by blast
    next
      case False
      with a e have "nat a = nat b" by (simp add: num_str_def dec_nat_inj)
      with a False show ?thesis by simp
    qed
  qed
qed

lemma takeWhile_separator: "c \<notin> set a \<Longrightarrow> takeWhile (\<lambda>x. x \<noteq> c) (a @ c # b) = a"
  by (induction a) auto

lemma split_at_separator:
  assumes "c \<notin> set a" "c \<notin> set a'" "a @ c # b = a' @ c # b'"
  shows "a = a' \<and> b = b'"
proof -
  have "takeWhile (\<lambda>x. x \<noteq> c) (a @ c # b) = a" "takeWhile (\<lambda>x. x \<noteq> c) (a' @ c # b') = a'"
    using assms(1,2) by (simp_all add: takeWhile_separator)
  with assms(3) have "a = a'" by simp
  with assms(3) show ?thesis by simp
qed

lemma key_of_inj: "key_of c = key_of d \<longleftrightarrow> c = d"
proof
  assume "key_of c = key_of d"
  then have "num_str (ci c) @ CHR '','' # num_str (cj c) = num_str (ci d) @ CHR '','' # num_str (cj d)"
    by (simp add: key_of_def)
  moreover have "CHR '','' \<notin> set (num_str (ci c))" "CHR '','' \<notin> set (num_str (ci d))"
    using num_str_chars by blast+
  ultimately have "num_str (ci c) = num_str (ci d) \<and> num_str (cj c) = num_str (cj d)"
    by (rule split_at_separator [rotated 2])
  then have "ci c = ci d" "cj c = cj d" by (auto dest: num_str_inj)
  then show "c = d" by simp
qed simp

section \<open>Properties of the coordinate mapper\<close>

lemma parseInt_digit: "n < 10 \<Longrightarrow> parseInt (Some (digit_char n)) = Some (int n)"
  by (simp add: parseInt_def is_digit_def of_char_digit)

lemma file_rank_table:
  "\<forall>n \<in> set [0..<8]. indexOf files (Some (files ! n)) = int n \<and> of_char (files ! n) = 97 + n
      \<and> ranks ! n = digit_char (Suc n)"
  by code_simp

lemma rank_codes: "\<forall>n \<in> set [0..<8]. (of_char (ranks ! n) :: nat) = 49 + n"
  by code_simp

lemma indexOf_files: "n < 8 \<Longrightarrow> indexOf files (Some (files ! n)) = int n"
  using file_rank_table by simp

lemma files_nth: "n < 8 \<Longrightarrow> of_char (files ! n) = 97 + n"
  using file_rank_table by simp

lemma ranks_nth: "k < 8 \<Longrightarrow> ranks ! k = digit_char (Suc k)"
  using file_rank_table by simp

lemma coordsToSquare_valid:
  assumes "validCell i j"
  shows "coordsToSquare i j = [files ! nat j, digit_char (nat (8 - i))]"
proof -
  have "0 \<le> 8 - i" "nat (8 - i) < 10" using assms by (auto simp: validCell_def)
  then show ?thesis using assms
    by (simp add: coordsToSquare_def num_str_def dec_nat_digit validCell_def)
qed

lemma squareToCoords_pair:
  "squareToCoords (f # r # rest) =
     (case parseInt (Some r) of None \<Rightarrow> None | Some k \<Rightarrow> Some (8 - k), indexOf files (Some f))"
  by (simp add: squareToCoords_def char_at_def)

lemma roundtrip:
  assumes "validCell i j"
  shows "squareToCoords (coordsToSquare i j) = (Some i, j)"
proof -
  have "nat (8 - i) < 10" "int (nat (8 - i)) = 8 - i" using assms by (auto simp: validCell_def)
  then have p: "parseInt (Some (digit_char (nat (8 - i)))) = Some (8 - i)"
    using parseInt_digit [of "nat (8 - i)"] by simp
  have "nat j < 8" "int (nat j) = j" using assms by (auto simp: validCell_def)
  then have q: "indexOf files (Some (files ! nat j)) = j"
    using indexOf_files [of "nat j"] by simp
  show ?thesis
    by (simp add: coordsToSquare_valid [OF assms] squareToCoords_pair p q)
qed

lemma coordsToSquare_inj:
  assumes "validCell i j" "validCell i' j'" "coordsToSquare i' j' = coordsToSquare i j"
  shows "i' = i \<and> j' = j"
proof -
  have "squareToCoords (coordsToSquare i' j') = squareToCoords (coordsToSquare i j)"
    by (simp only: assms(3))
  then show ?thesis by (simp add: roundtrip assms(1,2))
qed

lemma in_squares64: "validCell i j \<Longrightarrow> coordsToSquare i j \<in> set squares64"
proof -
  assume v: "validCell i j"
  have "nat j < 8" using v by (auto simp: validCell_def)
  then have f: "files ! nat j \<in> set files" by (intro nth_mem) (simp add: files_def)
  obtain k where k: "nat (8 - i) = Suc k" "k < 8"
    using v by (cases "nat (8 - i)") (auto simp: validCell_def)
  have "ranks ! k \<in> set ranks" using k by (intro nth_mem) (simp add: ranks_def)
  then have r: "digit_char (nat (8 - i)) \<in> set ranks" using k by (simp add: ranks_nth)
  show ?thesis using f r by (auto simp: coordsToSquare_valid [OF v] squares64_def)
qed

lemma squares64_cover: "s \<in> set squares64 \<Longrightarrow> \<exists>i j. validCell i j \<and> coordsToSquare i j = s"
proof -
  assume "s \<in> set squares64"
  then obtain f r where s: "s = [f, r]" and f: "f \<in> set files" and r: "r \<in> set ranks"
    by (auto simp: squares64_def)
  have lf: "length files = 8" by (simp add: files_def)
  have lr: "length ranks = 8" by (simp add: ranks_def)
  from f obtain n where n: "n < 8" "f = files ! n"
    unfolding in_set_conv_nth lf by blast
  from r obtain k where k: "k < 8" "r = ranks ! k"
    unfolding in_set_conv_nth lr by blast
  have v: "validCell (7 - int k) (int n)" using n k by (simp add: validCell_def)
  have "nat (8 - (7 - int k)) = Suc k" by simp
  then have "coordsToSquare (7 - int k) (int n) = s"
    using n k s by (simp add: coordsToSquare_valid [OF v] ranks_nth)
  with v show ?thesis by blast
qed

lemma squares64_count: "length squares64 = 64 \<and> distinct squares64"
  by (simp add: squares64_def files_def ranks_def)

text \<open>
  C6. For every valid cell (row and column in 0..7), converting the cell to chess notation
  and back gives the same cell. The notation is the file letter \<open>'a' + column\<close> followed by
  the rank digit \<open>8 - row\<close>; the conversion is injective on valid cells and its image is
  exactly the 64 distinct square names, so it is a bijection between cells and squares.
\<close>

theorem coords_roundtrip:
  assumes "validCell i j"
  shows "squareToCoords (coordsToSquare i j) = (Some i, j)
       \<and> coordsToSquare i j = [files ! nat j, digit_char (nat (8 - i))]
       \<and> of_char (files ! nat j) = 97 + nat j
       \<and> of_char (digit_char (nat (8 - i))) = 48 + nat (8 - i)
       \<and> (\<forall>i' j'. validCell i' j' \<and> coordsToSquare i' j' = coordsToSquare i j \<longrightarrow> i' = i \<and> j' = j)
       \<and> coordsToSquare i j \<in> set squares64
       \<and> (\<forall>s \<in> set squares64. \<exists>i' j'. validCell i' j' \<and> coordsToSquare i' j' = s)
       \<and> length squares64 = 64 \<and> distinct squares64"
proof -
  have a: "nat j < 8" "nat (8 - i) < 10" using assms by (auto simp: validCell_def)
  have "squareToCoords (coordsToSquare i j) = (Some i, j)"
    by (rule roundtrip [OF assms])
  moreover have "coordsToSquare i j = [files ! nat j, digit_char (nat (8 - i))]"
    by (rule coordsToSquare_valid [OF assms])
  moreover have "of_char (files ! nat j) = 97 + nat j"
    by (rule files_nth [OF a(1)])
  moreover have "of_char (digit_char (nat (8 - i))) = 48 + nat (8 - i)"
    by (rule of_char_digit [OF a(2)])
  moreover have "\<forall>i' j'. validCell i' j' \<and> coordsToSquare i' j' = coordsToSquare i j \<longrightarrow> i' = i \<and> j' = j"
    using coordsToSquare_inj [OF assms] by blast
  moreover have "coordsToSquare i j \<in> set squares64"
    by (rule in_squares64 [OF assms])
  moreover have "\<forall>s \<in> set squares64. \<exists>i' j'. validCell i' j' \<and> coordsToSquare i' j' = s"
    using squares64_cover by blast
  ultimately show ?thesis using squares64_count by blast
qed

theorem coords_roundtrip_witness:
  "validCell 3 4 \<and> squareToCoords (coordsToSquare 3 4) = (Some 3, 4) \<and> coordsToSquare 3 4 = ''e5''"
proof -
  have v: "validCell 3 4" by (simp add: validCell_def)
  from coords_roundtrip [OF v]
  have "squareToCoords (coordsToSquare 3 4) = (Some 3, 4)"
    and "coordsToSquare 3 4 = [files ! nat 4, digit_char (nat (8 - 3))]" by blast+
  then show ?thesis by (simp add: v files_def digit_char_def)
qed

lemma indexOf_from_notin: "x \<notin> set xs \<Longrightarrow> indexOf_from k xs x = -1"
  by (induction xs arbitrary: k) auto

lemma indexOf_from_in:
  "x \<in> set xs \<Longrightarrow> k \<le> indexOf_from k xs x \<and> indexOf_from k xs x < k + int (length xs)"
proof (induction xs arbitrary: k)
  case Nil
  then show ?case by simp
next
  case (Cons y ys)
  show ?case
  proof (cases "y = x")
    case True
    then show ?thesis by simp
  next
    case False
    with Cons.prems have "x \<in> set ys" by simp
    from Cons.IH [OF this, of "k + 1"] False show ?thesis by simp
  qed
qed

lemma indexOf_valid: "(0 \<le> indexOf files (Some f) \<and> indexOf files (Some f) < 8) = (f \<in> set files)"
proof (cases "f \<in> set files")
  case True
  have "length files = 8" by (simp add: files_def)
  with indexOf_from_in [OF True, of 0] True show ?thesis by (simp add: indexOf_def)
next
  case False
  then show ?thesis by (simp add: indexOf_def indexOf_from_notin)
qed

lemma rank_char: "(r \<in> set ranks) = (49 \<le> (of_char r :: nat) \<and> (of_char r :: nat) \<le> 56)"
proof
  assume "r \<in> set ranks"
  then show "49 \<le> (of_char r :: nat) \<and> (of_char r :: nat) \<le> 56"
    by (auto simp: ranks_def)
next
  assume a: "49 \<le> (of_char r :: nat) \<and> (of_char r :: nat) \<le> 56"
  define k where "k = (of_char r :: nat) - 49"
  have k: "k < 8" "(of_char r :: nat) = 49 + k" using a by (auto simp: k_def)
  have "(of_char (ranks ! k) :: nat) = 49 + k"
    using rank_codes k(1) by simp
  with k have "(of_char r :: nat) = of_char (ranks ! k)" by simp
  then have "r = ranks ! k" by (simp only: of_char_eq_iff)
  moreover have "ranks ! k \<in> set ranks" using k by (intro nth_mem) (simp add: ranks_def)
  ultimately show "r \<in> set ranks" by simp
qed

lemma parseInt_valid:
  "(\<exists>k. parseInt (Some r) = Some k \<and> 0 \<le> 8 - k \<and> 8 - k < 8) = (r \<in> set ranks)"
  by (auto simp: parseInt_def is_digit_def rank_char)

text \<open>
  C7 as stated fails: \<open>squareToCoords\<close> has no validation and no error path. A string of the
  wrong length is malformed, yet \<open>a1x\<close> is answered with the ordinary cell \<open>(7, 0)\<close>.
\<close>

theorem squareToCoords_malformed_counterexample:
  "\<not> wellFormedSquare ''a1x'' \<and> squareToCoords ''a1x'' = (Some 7, 0) \<and> validCell 7 0"
  by (simp add: wellFormedSquare_def squareToCoords_def char_at_def parseInt_def is_digit_def
      indexOf_def files_def validCell_def)

text \<open>
  C7, amended. \<open>squareToCoords\<close> never signals an error. Its result is a valid cell (a row
  that is a number in 0..7 and a column in 0..7) exactly when the string begins with a file
  letter in a..h followed by a rank digit in 1..8; otherwise the row is \<open>NaN\<close> or out of
  range, or the column is \<open>-1\<close>. Characters after the second are ignored.
\<close>

theorem squareToCoords_valid_iff:
  "(\<exists>i j. squareToCoords s = (Some i, j) \<and> validCell i j) =
   (\<exists>f r rest. s = f # r # rest \<and> f \<in> set files \<and> r \<in> set ranks)"
proof (cases s)
  case Nil
  then show ?thesis by (simp add: squareToCoords_def char_at_def parseInt_def)
next
  case (Cons f t)
  show ?thesis
  proof (cases t)
    case Nil
    with Cons show ?thesis by (simp add: squareToCoords_def char_at_def parseInt_def)
  next
    case (Cons r rest)
    have "(\<exists>i j. squareToCoords (f # r # rest) = (Some i, j) \<and> validCell i j) =
          ((\<exists>k. parseInt (Some r) = Some k \<and> 0 \<le> 8 - k \<and> 8 - k < 8) \<and>
           (0 \<le> indexOf files (Some f) \<and> indexOf files (Some f) < 8))"
      by (auto simp: squareToCoords_pair validCell_def split: option.splits)
    then show ?thesis using Cons \<open>s = f # t\<close>
      by (simp only: parseInt_valid indexOf_valid) auto
  qed
qed

theorem squareToCoords_valid_iff_witness:
  "(\<exists>i j. squareToCoords ''a9'' = (Some i, j) \<and> validCell i j) = False
   \<and> squareToCoords ''a9'' = (Some (-1), 0) \<and> squareToCoords ''i5'' = (Some 3, -1)
   \<and> squareToCoords ''e'' = (None, 4)"
  using squareToCoords_valid_iff [of "''a9''"]
  by (simp add: ranks_def squareToCoords_def char_at_def parseInt_def is_digit_def
      indexOf_def files_def)

section \<open>Properties of the danger-zone tracker\<close>

lemma cell_eq: "(ci a = ci b \<and> cj a = cj b) = (a = (b::cell))"
  by auto

lemma zone_at_iff:
  "list_ex (\<lambda>z. key_of (dz_position z) = key_of c) zs = (\<exists>z \<in> set zs. dz_position z = c)"
  by (simp add: list_ex_iff key_of_inj)

lemma isSquareDangerous_iff:
  "isSquareDangerous g (ci c) (cj c) = (\<exists>z \<in> set (dangerZones g). dz_position z = c)"
  by (simp add: isSquareDangerous_def list_ex_iff cell_eq)

lemma addDangerZone_noop:
  "\<not> areDangerZonesEnabled g \<or> isSquareDangerous g (ci c) (cj c) \<Longrightarrow> addDangerZone g c = g"
  by (auto simp: addDangerZone_def zone_at_iff isSquareDangerous_iff)

lemma addDangerZone_new:
  assumes "areDangerZonesEnabled g" "\<not> isSquareDangerous g (ci c) (cj c)"
  shows "addDangerZone g c =
     g\<lparr>dangerZones := dangerZones g @ [\<lparr>dz_position = c, dz_timestamp = clock g, dz_active = True\<rparr>],
       pending := pending g @ [\<lparr>task_id = nextTimer g, task_due = clock g + 15000, task_cell = c\<rparr>],
       nextTimer := nextTimer g + 1,
       dangerZoneTimers := AList.update (key_of c) (nextTimer g) (dangerZoneTimers g)\<rparr>"
  using assms by (simp add: addDangerZone_def zone_at_iff isSquareDangerous_iff)

lemma addDangerZone_dangerous:
  "areDangerZonesEnabled g \<Longrightarrow> isSquareDangerous (addDangerZone g c) (ci c) (cj c)"
  by (cases "isSquareDangerous g (ci c) (cj c)")
     (simp_all add: addDangerZone_noop addDangerZone_new isSquareDangerous_iff)

lemma addDangerZone_enabled: "areDangerZonesEnabled (addDangerZone g c) = areDangerZonesEnabled g"
  by (simp add: addDangerZone_def areDangerZonesEnabled_def Let_def)

lemma addDangerZone_twice: "addDangerZone (addDangerZone g c) c = addDangerZone g c"
proof (cases "areDangerZonesEnabled g")
  case True
  then show ?thesis
    by (intro addDangerZone_noop disjI2 addDangerZone_dangerous)
next
  case False
  then show ?thesis by (simp add: addDangerZone_noop)
qed

lemma addDangerZone_distinct: "zones_distinct g \<Longrightarrow> zones_distinct (addDangerZone g c)"
proof (cases "areDangerZonesEnabled g \<and> \<not> isSquareDangerous g (ci c) (cj c)")
  case True
  assume "zones_distinct g"
  with True show ?thesis
    by (auto simp: addDangerZone_new zones_distinct_def isSquareDangerous_iff)
next
  case False
  assume "zones_distinct g"
  with False show ?thesis by (auto simp: addDangerZone_noop)
qed

lemma count_zone_distinct:
  assumes "distinct (map dz_position zs)" "\<exists>z \<in> set zs. dz_position z = c"
  shows "length (filter (\<lambda>z. dz_position z = c) zs) = 1"
  using assms
proof (induction zs)
  case Nil
  then show ?case by simp
next
  case (Cons z zs)
  show ?case
  proof (cases "dz_position z = c")
    case True
    with Cons.prems have "c \<notin> dz_position ` set zs" by simp
    then have "\<forall>y \<in> set zs. dz_position y \<noteq> c" by blast
    then have "filter (\<lambda>z. dz_position z = c) zs = []" by (simp add: filter_empty_conv)
    with True show ?thesis by simp
  next
    case False
    with Cons show ?thesis by simp
  qed
qed

text \<open>Frame facts: what the operations leave alone.\<close>

lemma removePieceAt_frame: "\<exists>p. fst (removePieceAt rp g c) = g\<lparr>chess := p\<rparr>"
proof -
  have "g = g\<lparr>chess := chess g\<rparr>" by simp
  then show ?thesis
    by (auto simp: removePieceAt_def Let_def split: option.splits intro: exI [of _ "chess g"])
qed

lemma removePieceAt_zones [simp]:
  "dangerZones (fst (removePieceAt rp g c)) = dangerZones g"
  "dangerZoneTimers (fst (removePieceAt rp g c)) = dangerZoneTimers g"
  "pending (fst (removePieceAt rp g c)) = pending g"
  "winner (fst (removePieceAt rp g c)) = winner g"
  "caught (fst (removePieceAt rp g c)) = caught g"
  "settings (fst (removePieceAt rp g c)) = settings g"
  using removePieceAt_frame [of rp g c] by auto

lemma removeDangerZone_zones:
  "dangerZones (removeDangerZone rp g c) = filter (\<lambda>z. dz_position z \<noteq> c) (dangerZones g)"
  by (simp add: removeDangerZone_def Let_def clearTimeout_def key_of_inj split: option.splits)

lemma removeDangerZone_timers:
  "dangerZoneTimers (removeDangerZone rp g c) = AList.delete (key_of c) (dangerZoneTimers g)"
  by (simp add: removeDangerZone_def Let_def clearTimeout_def split: option.splits)

lemma expire_zones:
  "dangerZones (expire rp g c) = filter (\<lambda>z. dz_position z \<noteq> c) (dangerZones g)"
  by (simp add: expire_def Let_def removeDangerZone_zones split: option.splits)

lemma expire_timers:
  "dangerZoneTimers (expire rp g c) = AList.delete (key_of c) (dangerZoneTimers g)"
  by (simp add: expire_def Let_def removeDangerZone_timers split: option.splits)

lemma fold_clearTimeout_frame:
  "\<exists>ps. fold (\<lambda>(k, t) a. clearTimeout a t) ts g = g\<lparr>pending := ps\<rparr>"
proof (induction ts arbitrary: g)
  case Nil
  have "g = g\<lparr>pending := pending g\<rparr>" by simp
  then show ?case by (auto intro: exI [of _ "pending g"])
next
  case (Cons a ts)
  obtain k t where a: "a = (k, t)" by (cases a)
  from Cons [of "clearTimeout g t"] obtain ps
    where "fold (\<lambda>(k, t) a. clearTimeout a t) ts (clearTimeout g t) = (clearTimeout g t)\<lparr>pending := ps\<rparr>"
    by blast
  then show ?case by (auto simp: a clearTimeout_def)
qed

lemma clearDangerZones_zones [simp]: "dangerZones (clearDangerZones g) = []"
  by (simp add: clearDangerZones_def)

lemma step_distinct: "zones_distinct g \<Longrightarrow> zones_distinct (step rp g x)"
proof (cases x)
  case (OpAddDangerZone c)
  assume "zones_distinct g"
  then show ?thesis by (simp add: OpAddDangerZone addDangerZone_distinct)
next
  case (OpRemoveDangerZone c)
  assume "zones_distinct g"
  then show ?thesis
    by (simp add: OpRemoveDangerZone zones_distinct_def removeDangerZone_zones distinct_map_filter)
next
  case OpProcessDangerQueue
  assume d: "zones_distinct g"
  show ?thesis
  proof (cases "dangerZoneQueue g")
    case Nil
    with d show ?thesis by (simp add: OpProcessDangerQueue processDangerQueue_def)
  next
    case (Cons c rest)
    from d have "zones_distinct (g\<lparr>dangerZoneQueue := rest\<rparr>)" by (simp add: zones_distinct_def)
    then show ?thesis
      by (simp add: OpProcessDangerQueue processDangerQueue_def Cons addDangerZone_distinct)
  qed
next
  case (OpMovePiece a b)
  assume "zones_distinct g"
  then show ?thesis
    by (auto simp: OpMovePiece movePiece_def zones_distinct_def split: option.splits)
next
  case (OpFire t)
  assume "zones_distinct g"
  then show ?thesis
    by (auto simp: OpFire fire_def zones_distinct_def expire_zones distinct_map_filter
        split: option.splits)
qed (simp_all add: zones_distinct_def setSettings_def setHumanColor_def setKingCaughtCallback_def
      queueDangerZone_def reset_def)

lemma run_distinct: "zones_distinct g \<Longrightarrow> zones_distinct (run rp ops g)"
  unfolding run_def by (induction ops arbitrary: g) (simp_all add: step_distinct)

lemma newGame_distinct: "zones_distinct newGame"
  by (simp add: zones_distinct_def newGame_def)

text \<open>
  C8. \<open>addDangerZone\<close> does nothing when danger zones are disabled or a zone record already
  exists at the cell (the whole state, so the zone list and the timer map, is unchanged).
  Otherwise it appends exactly one record for the cell, stamped with the current time,
  schedules one task due 15000 ms later and stores its handle under the cell's key.
  Calling it twice on a cell is the same as calling it once, and leaves exactly one record
  for the cell. In every state reached from a new game by any sequence of operations, no
  two zone records share a position.
\<close>

theorem addDangerZone_idempotent:
  "(\<not> areDangerZonesEnabled g \<or> isSquareDangerous g (ci c) (cj c) \<longrightarrow> addDangerZone g c = g)
   \<and> (areDangerZonesEnabled g \<and> \<not> isSquareDangerous g (ci c) (cj c) \<longrightarrow>
        dangerZones (addDangerZone g c) =
          dangerZones g @ [\<lparr>dz_position = c, dz_timestamp = clock g, dz_active = True\<rparr>]
        \<and> pending (addDangerZone g c) =
          pending g @ [\<lparr>task_id = nextTimer g, task_due = clock g + 15000, task_cell = c\<rparr>]
        \<and> map_of (dangerZoneTimers (addDangerZone g c)) (key_of c) = Some (nextTimer g))
   \<and> addDangerZone (addDangerZone g c) c = addDangerZone g c
   \<and> (areDangerZonesEnabled g \<and> zones_distinct g \<longrightarrow>
        length (filter (\<lambda>z. dz_position z = c) (dangerZones (addDangerZone (addDangerZone g c) c))) = 1)
   \<and> (zones_distinct g \<longrightarrow> zones_distinct (addDangerZone g c))
   \<and> zones_distinct (run rp ops newGame)"
proof -
  have one: "length (filter (\<lambda>z. dz_position z = c) (dangerZones (addDangerZone (addDangerZone g c) c))) = 1"
    if "areDangerZonesEnabled g" "zones_distinct g"
  proof -
    have "zones_distinct (addDangerZone g c)" using that(2) by (rule addDangerZone_distinct)
    moreover have "\<exists>z \<in> set (dangerZones (addDangerZone g c)). dz_position z = c"
      using addDangerZone_dangerous [OF that(1), of c] by (simp add: isSquareDangerous_iff)
    ultimately show ?thesis
      by (simp add: addDangerZone_twice zones_distinct_def count_zone_distinct)
  qed
  show ?thesis
    using one by (simp add: addDangerZone_noop addDangerZone_new addDangerZone_twice
        addDangerZone_distinct run_distinct newGame_distinct update_Some_unfold)
qed

theorem addDangerZone_idempotent_witness:
  "areDangerZonesEnabled newGame \<and> \<not> isSquareDangerous newGame 4 4
   \<and> dangerZones (addDangerZone (addDangerZone newGame (at 4 4)) (at 4 4)) =
       [\<lparr>dz_position = at 4 4, dz_timestamp = 0, dz_active = True\<rparr>]
   \<and> dangerZoneTimers (addDangerZone (addDangerZone newGame (at 4 4)) (at 4 4)) = [(''4,4'', 1)]
   \<and> addDangerZone (setSettings newGame \<lparr>mode = ''singleplayer'', playerColor = None, botLevel = None,
        dangerZonesEnabled = Some False\<rparr>) (at 4 4) =
      setSettings newGame \<lparr>mode = ''singleplayer'', playerColor = None, botLevel = None, dangerZonesEnabled = Some False\<rparr>"
proof -
  have e: "areDangerZonesEnabled newGame" "\<not> isSquareDangerous newGame 4 4"
    by (simp_all add: areDangerZonesEnabled_def newGame_def isSquareDangerous_def)
  have k: "key_of (at 4 4) = ''4,4''"
    by (simp add: key_of_def at_def num_str_def dec_nat.simps digit_char_def)
  have d: "\<not> areDangerZonesEnabled (setSettings newGame \<lparr>mode = ''singleplayer'', playerColor = None, botLevel = None,
        dangerZonesEnabled = Some False\<rparr>)"
    by (simp add: areDangerZonesEnabled_def setSettings_def)
  from addDangerZone_idempotent [of newGame "at 4 4" opening_rules "[]"]
       addDangerZone_idempotent [of "setSettings newGame \<lparr>mode = ''singleplayer'', playerColor = None, botLevel = None,
        dangerZonesEnabled = Some False\<rparr>" "at 4 4" opening_rules "[]"] e d
  show ?thesis
    by (simp add: at_def k [unfolded at_def] addDangerZone_new newGame_def)
qed

section \<open>Properties of piece removal, expiry and reset\<close>

lemma set_cells8: "((i, j) \<in> set cells8) = validCell i j"
proof -
  have "((i, j) \<in> set cells8) = (i \<in> {0..7} \<and> j \<in> {0..7})"
    by (simp add: cells8_def image_iff)
  then show ?thesis by (auto simp: validCell_def)
qed

lemma has_piece_iff:
  "list_ex (\<lambda>x. x = Some pc) (board_flat p) =
   (\<exists>i j. validCell i j \<and> board p (coordsToSquare i j) = Some pc)"
proof -
  have "list_ex (\<lambda>x. x = Some pc) (board_flat p) =
        (\<exists>c \<in> set cells8. board p (coordsToSquare (fst c) (snd c)) = Some pc)"
    by (force simp: board_flat_def list_ex_iff case_prod_unfold image_iff)
  also have "\<dots> = (\<exists>i j. validCell i j \<and> board p (coordsToSquare i j) = Some pc)"
    by (simp add: Bex_def set_cells8)
  finally show ?thesis .
qed

lemma kingCount_pos: "(0 < kingCount p c) = list_ex (\<lambda>x. x = Some (Piece King c)) (board_flat p)"
  by (auto simp: kingCount_def list_ex_iff filter_empty_conv)

lemma isBoardValid_kings:
  "isBoardValid rp p = (fen_ok rp p \<and> 0 < kingCount p White \<and> 0 < kingCount p Black)"
  by (simp add: isBoardValid_def load_fen_def kingCount_pos Let_def)

lemma kingCount_remove:
  assumes "\<forall>col. board p sq \<noteq> Some (Piece King col)"
  shows "kingCount (chess_remove p sq) c = kingCount p c"
proof -
  have "(((board p)(sq := None)) s = Some (Piece King c)) = (board p s = Some (Piece King c))" for s
    using assms by auto
  then show ?thesis
    by (simp add: kingCount_def board_flat_def chess_remove_def filter_map comp_def case_prod_unfold)
qed

lemma removal_accepted_iff:
  "removal_accepted rp p sq =
     (fen_ok rp p \<and> fen_ok rp (chess_remove p sq)
      \<and> 0 < kingCount (chess_remove p sq) White \<and> 0 < kingCount (chess_remove p sq) Black)"
  by (auto simp: removal_accepted_def load_fen_def isBoardValid_kings chess_remove_def kingCount_def
      board_flat_def)

lemma removePieceAt_eq:
  "removePieceAt rp g c =
     (if (\<exists>pc. board (chess g) (coordsToSquare (ci c) (cj c)) = Some pc \<and> ptype_of pc \<noteq> King)
         \<and> removal_accepted rp (chess g) (coordsToSquare (ci c) (cj c))
      then (g\<lparr>chess := (chess g)\<lparr>board := (board (chess g))(coordsToSquare (ci c) (cj c) := None)\<rparr>\<rparr>,
            True)
      else (g, False))"
  by (auto simp: removePieceAt_def removal_accepted_def load_fen_def isBoardValid_def
      chess_remove_def Let_def split: option.splits)

lemma removePieceAt_chess_only:
  "chess g2 = chess g \<Longrightarrow> chess (fst (removePieceAt rp g2 c)) = chess (fst (removePieceAt rp g c))"
  by (auto simp: removePieceAt_eq)

lemma removePieceAt_again:
  "chess (fst (removePieceAt rp (fst (removePieceAt rp g c)) c)) = chess (fst (removePieceAt rp g c))"
  by (auto simp: removePieceAt_eq)

lemma removeDangerZone_chess:
  "chess (removeDangerZone rp g c) = chess (fst (removePieceAt rp g c))"
  by (auto simp: removeDangerZone_def Let_def clearTimeout_def removePieceAt_eq split: option.splits)

lemma removeDangerZone_pending:
  "pending (removeDangerZone rp g c) =
     (case map_of (dangerZoneTimers g) (key_of c) of
        None \<Rightarrow> pending g
      | Some t \<Rightarrow> if t \<noteq> 0 then filter (\<lambda>k. task_id k \<noteq> t) (pending g) else pending g)"
  by (simp add: removeDangerZone_def Let_def clearTimeout_def split: option.splits)

lemma removeDangerZone_rest [simp]:
  "winner (removeDangerZone rp g c) = winner g"
  "caught (removeDangerZone rp g c) = caught g"
  by (simp_all add: removeDangerZone_def Let_def clearTimeout_def split: option.splits)

lemma expire_king:
  assumes "board (chess g) (coordsToSquare (ci c) (cj c)) = Some (Piece King col)"
    and "humanColor g = Some col"
  shows "winner (expire rp g c) = Some (opp col)"
    and "caught (expire rp g c) = (if kingCaughtCallback g then caught g @ [opp col] else caught g)"
    and "chess (expire rp g c) = chess g"
  using assms
  by (cases col; simp add: expire_def getPiece_def getPieceTypeAt_def isHumanPlayer_def Let_def
      removeDangerZone_chess removePieceAt_eq)+

lemma expire_piece:
  assumes "board (chess g) (coordsToSquare (ci c) (cj c)) = Some pc" and "ptype_of pc \<noteq> King"
  shows "winner (expire rp g c) = winner g"
    and "caught (expire rp g c) = caught g"
    and "chess (expire rp g c) = chess (fst (removePieceAt rp g c))"
  using assms
  by (simp_all add: expire_def getPiece_def getPieceTypeAt_def Let_def
      removeDangerZone_chess removePieceAt_again)

lemma expire_pending: "set (pending (expire rp g c)) \<subseteq> set (pending g)"
  by (auto simp: expire_def Let_def removeDangerZone_pending split: option.splits if_splits)

lemma delete_lookup: "map_of (AList.delete k xs) k = None"
  by (simp add: AList.delete_eq map_of_eq_None_iff image_iff)

lemma fold_clearTimeout_pending:
  "pending (fold (\<lambda>(k, t) a. clearTimeout a t) ts g) =
   filter (\<lambda>x. task_id x \<notin> snd ` set ts) (pending g)"
proof (induction ts arbitrary: g)
  case Nil
  then show ?case by simp
next
  case (Cons a ts)
  obtain k t where a: "a = (k, t)" by (cases a)
  have "pending (fold (\<lambda>(k, t) a. clearTimeout a t) ts (clearTimeout g t)) =
        filter (\<lambda>x. task_id x \<notin> snd ` set ts) (pending (clearTimeout g t))"
    by (rule Cons)
  moreover have "pending (clearTimeout g t) = filter (\<lambda>k. task_id k \<noteq> t) (pending g)"
    by (simp add: clearTimeout_def)
  ultimately show ?case
    by (auto simp: a intro: filter_cong)
qed

lemma clearDangerZones_eq:
  "clearDangerZones g =
     g\<lparr>pending := filter (\<lambda>x. task_id x \<notin> snd ` set (dangerZoneTimers g)) (pending g),
       dangerZoneTimers := [], dangerZones := [], dangerZoneQueue := []\<rparr>"
proof -
  obtain ps where ps: "fold (\<lambda>(k, t) a. clearTimeout a t) (dangerZoneTimers g) g = g\<lparr>pending := ps\<rparr>"
    using fold_clearTimeout_frame by blast
  have "ps = filter (\<lambda>x. task_id x \<notin> snd ` set (dangerZoneTimers g)) (pending g)"
    using fold_clearTimeout_pending [of "dangerZoneTimers g" g] by (simp add: ps)
  then show ?thesis by (simp add: clearDangerZones_def ps)
qed

lemma king_caught_state:
  "run rp king_caught_run newGame =
     \<lparr>chess = start_position, redoStack = [], dangerZones = [], dangerZoneTimers = [],
      lastDangerSide = Black, dangerZoneQueue = [], winner = Some Black,
      kingCaughtCallback = True, humanColor = Some White, settings = None, pending = [],
      nextTimer = 2, clock = 15000, caught = [Black]\<rparr>"
proof -
  have k: "key_of \<lparr>ci = 7, cj = 4\<rparr> = ''7,4''" "coordsToSquare 7 4 = ''e1''"
    by (simp_all add: key_of_def num_str_def dec_nat.simps digit_char_def coordsToSquare_def files_def)
  have b: "board start_position ''e1'' = Some (Piece King White)"
    by (simp add: start_position_def start_squares_def files_def back_rank_def)
  show ?thesis
    by (simp add: run_def king_caught_run_def king_zone_run_def setHumanColor_def setKingCaughtCallback_def
        addDangerZone_def areDangerZonesEnabled_def fire_def expire_def isHumanPlayer_def
        getPiece_def getPieceTypeAt_def removeDangerZone_def removePieceAt_def clearTimeout_def
        k b at_def newGame_def Let_def)
qed

text \<open>
  C1. The claim holds except for the winner: \<open>reset\<close> empties the zone list and the timer
  map, cancels every task whose handle the timer map holds, and loads the starting
  position with White to move, but it never assigns \<open>_winner\<close>. After the human's king has
  been caught on a danger zone (winner Black), \<open>reset\<close> followed by \<open>checkGameResult\<close>
  still answers \<open>Pretas\<close> instead of no result.
\<close>

theorem reset_keeps_winner:
  "winner (reset g) = winner g
   \<and> winner (run rp king_caught_run newGame) = Some Black
   \<and> checkGameResult rp (reset (run rp king_caught_run newGame)) = Pretas
   \<and> dangerZones (reset g) = [] \<and> dangerZoneTimers (reset g) = []
   \<and> pending (reset g) = filter (\<lambda>x. task_id x \<notin> snd ` set (dangerZoneTimers g)) (pending g)
   \<and> chess (reset g) = start_position \<and> getCurrentTurn (reset g) = White"
  by (simp add: reset_def clearDangerZones_eq king_caught_state checkGameResult_def
      getCurrentTurn_def start_position_def)

lemma e2_square: "coordsToSquare 6 4 = ''e2''" "key_of \<lparr>ci = 6, cj = 4\<rparr> = ''6,4''"
  by (simp_all add: key_of_def num_str_def dec_nat.simps digit_char_def coordsToSquare_def files_def)

lemma start_kings:
  "0 < kingCount (chess_remove start_position ''e2'') White"
  "0 < kingCount (chess_remove start_position ''e2'') Black"
proof -
  have w: "validCell 7 4 \<and> board (chess_remove start_position ''e2'') (coordsToSquare 7 4) =
        Some (Piece King White)"
    by (simp add: validCell_def chess_remove_def coordsToSquare_def files_def num_str_def
        dec_nat.simps digit_char_def start_position_def start_squares_def back_rank_def)
  have b: "validCell 0 4 \<and> board (chess_remove start_position ''e2'') (coordsToSquare 0 4) =
        Some (Piece King Black)"
    by (simp add: validCell_def chess_remove_def coordsToSquare_def files_def num_str_def
        dec_nat.simps digit_char_def start_position_def start_squares_def back_rank_def)
  show "0 < kingCount (chess_remove start_position ''e2'') White"
    unfolding kingCount_pos has_piece_iff using w by blast
  show "0 < kingCount (chess_remove start_position ''e2'') Black"
    unfolding kingCount_pos has_piece_iff using b by blast
qed

lemma start_e2: "board start_position ''e2'' = Some (Piece Pawn White)"
  by (simp add: start_position_def start_squares_def files_def back_rank_def)

lemma opening_fen_ok [simp]: "fen_ok opening_rules p"
  by (simp add: opening_rules_def scripted_def)

lemma start_removal_accepted: "removal_accepted opening_rules start_position ''e2''"
  by (simp add: removal_accepted_iff start_kings)

lemma zone_removed_board:
  "board (chess (run opening_rules zone_removed_run newGame)) = (board start_position)(''e2'' := None)"
proof -
  have "chess (run opening_rules zone_removed_run newGame) =
        chess (fst (removePieceAt opening_rules (addDangerZone newGame (at 6 4)) (at 6 4)))"
    by (simp add: run_def zone_removed_run_def removeDangerZone_chess)
  also have "\<dots> = chess (fst (removePieceAt opening_rules newGame (at 6 4)))"
    by (rule removePieceAt_chess_only) (simp add: addDangerZone_def Let_def)
  finally show ?thesis
    by (simp add: removePieceAt_eq at_def e2_square newGame_def start_e2 start_removal_accepted)
qed

text \<open>
  C2 as stated fails: \<open>removeDangerZone\<close> ends with a call of \<open>removePieceAt\<close> on the cell.
  With a zone put on \<open>e2\<close> in the starting position and removed again, the pawn on \<open>e2\<close> is
  gone.
\<close>

theorem removeDangerZone_board_counterexample:
  "board (chess newGame) ''e2'' = Some (Piece Pawn White)
   \<and> coordsToSquare (ci (at 6 4)) (cj (at 6 4)) = ''e2''
   \<and> board (chess (run opening_rules zone_removed_run newGame)) ''e2'' = None"
proof -
  have 1: "board (chess newGame) ''e2'' = Some (Piece Pawn White)"
    by (simp add: newGame_def start_e2)
  have 2: "coordsToSquare (ci (at 6 4)) (cj (at 6 4)) = ''e2''"
    by (simp add: at_def e2_square)
  have 3: "board (chess (run opening_rules zone_removed_run newGame)) ''e2'' = None"
    by (simp add: zone_removed_board)
  from 1 2 3 show ?thesis by blast
qed

text \<open>
  C2, amended. \<open>removeDangerZone(cell)\<close> cancels the task stored under the cell's key,
  deletes the zone records and the timer entry of the cell, and then attempts
  \<open>removePieceAt(cell)\<close>: a piece on the cell that is not a king is removed when the
  removal test accepts it. An empty cell or a king is left as it is, the occupant of every
  other square is unchanged, and so are the side to move and the winner.
\<close>

theorem removeDangerZone_effect:
  "dangerZones (removeDangerZone rp g c) = filter (\<lambda>z. dz_position z \<noteq> c) (dangerZones g)
   \<and> dangerZoneTimers (removeDangerZone rp g c) = AList.delete (key_of c) (dangerZoneTimers g)
   \<and> pending (removeDangerZone rp g c) =
        (case map_of (dangerZoneTimers g) (key_of c) of
           None \<Rightarrow> pending g
         | Some t \<Rightarrow> if t \<noteq> 0 then filter (\<lambda>k. task_id k \<noteq> t) (pending g) else pending g)
   \<and> board (chess (removeDangerZone rp g c)) =
        (if (\<exists>pc. board (chess g) (coordsToSquare (ci c) (cj c)) = Some pc \<and> ptype_of pc \<noteq> King)
            \<and> removal_accepted rp (chess g) (coordsToSquare (ci c) (cj c))
         then (board (chess g))(coordsToSquare (ci c) (cj c) := None)
         else board (chess g))
   \<and> (\<forall>s. s \<noteq> coordsToSquare (ci c) (cj c) \<longrightarrow>
          board (chess (removeDangerZone rp g c)) s = board (chess g) s)
   \<and> turn (chess (removeDangerZone rp g c)) = turn (chess g)
   \<and> winner (removeDangerZone rp g c) = winner g"
  by (auto simp: removeDangerZone_zones removeDangerZone_timers removeDangerZone_pending
      removeDangerZone_chess removePieceAt_eq)

theorem removeDangerZone_effect_witness:
  "board (chess (removeDangerZone opening_rules newGame (at 7 4))) = board (chess newGame)
   \<and> board (chess (removeDangerZone opening_rules newGame (at 6 4))) =
       (board (chess newGame))(''e2'' := None)
   \<and> board (chess (removeDangerZone opening_rules newGame (at 6 4))) ''e1'' =
       Some (Piece King White)"
proof -
  have k: "coordsToSquare 7 4 = ''e1''"
    by (simp add: coordsToSquare_def files_def num_str_def dec_nat.simps digit_char_def)
  have b: "board start_position ''e1'' = Some (Piece King White)"
    by (simp add: start_position_def start_squares_def files_def back_rank_def)
  from removeDangerZone_effect [of opening_rules newGame "at 7 4"]
       removeDangerZone_effect [of opening_rules newGame "at 6 4"]
  show ?thesis
    by (simp add: at_def k b e2_square newGame_def start_e2 start_removal_accepted)
qed

lemma fire_eq:
  assumes "find (\<lambda>x. task_id x = t) (pending g) = Some k" and "task_due k \<le> clock g"
  shows "fire rp g t = expire rp (g\<lparr>pending := filter (\<lambda>x. task_id x \<noteq> t) (pending g)\<rparr>) (task_cell k)"
  using assms by (simp add: fire_def)

lemma removePieceAt_kings:
  "kingCount (chess (fst (removePieceAt rp g c))) col = kingCount (chess g) col"
proof (cases "(\<exists>pc. board (chess g) (coordsToSquare (ci c) (cj c)) = Some pc \<and> ptype_of pc \<noteq> King)
         \<and> removal_accepted rp (chess g) (coordsToSquare (ci c) (cj c))")
  case True
  then have "\<forall>x. board (chess g) (coordsToSquare (ci c) (cj c)) \<noteq> Some (Piece King x)"
    by auto
  from kingCount_remove [OF this, of col] True show ?thesis
    by (simp add: removePieceAt_eq chess_remove_def kingCount_def board_flat_def)
next
  case False
  then show ?thesis by (auto simp: removePieceAt_eq)
qed

lemma expire_piece_board:
  assumes "board (chess g) (coordsToSquare (ci c) (cj c)) = Some pc" and "ptype_of pc \<noteq> King"
  shows "removal_accepted rp (chess g) (coordsToSquare (ci c) (cj c)) \<Longrightarrow>
           board (chess (expire rp g c)) = (board (chess g))(coordsToSquare (ci c) (cj c) := None)
           \<and> turn (chess (expire rp g c)) = turn (chess g)"
    and "\<not> removal_accepted rp (chess g) (coordsToSquare (ci c) (cj c)) \<Longrightarrow>
           chess (expire rp g c) = chess g"
  using assms by (simp_all add: expire_piece removePieceAt_eq)

lemma expire_piece_kings:
  assumes "board (chess g) (coordsToSquare (ci c) (cj c)) = Some pc" and "ptype_of pc \<noteq> King"
  shows "kingCount (chess (expire rp g c)) col = kingCount (chess g) col"
  by (simp only: expire_piece(3) [OF assms] removePieceAt_kings)

lemma rejected_without_king:
  assumes "board p sq = Some pc" and "ptype_of pc \<noteq> King"
    and "kingCount (chess_remove p sq) White = 0 \<or> kingCount (chess_remove p sq) Black = 0"
  shows "\<not> removal_accepted rp p sq"
  using assms by (auto simp: removal_accepted_iff)

lemma rejected_unless_one_king:
  assumes "board p sq = Some pc" and "ptype_of pc \<noteq> King"
    and "kingCount p White \<le> 1" and "kingCount p Black \<le> 1"
    and "\<not> (kingCount (chess_remove p sq) White = 1 \<and> kingCount (chess_remove p sq) Black = 1)"
  shows "\<not> removal_accepted rp p sq"
proof -
  have "\<forall>col. board p sq \<noteq> Some (Piece King col)" using assms(1,2) by auto
  then have "kingCount (chess_remove p sq) White = kingCount p White"
    "kingCount (chess_remove p sq) Black = kingCount p Black"
    by (simp_all add: kingCount_remove)
  with assms(3-5) have "kingCount (chess_remove p sq) White = 0 \<or> kingCount (chess_remove p sq) Black = 0"
    by auto
  with assms(1,2) show ?thesis by (rule rejected_without_king)
qed

text \<open>
  C3. When the task of a danger zone fires (it is pending and due: 15000 ms after the zone
  was made), the closure reads the occupant of the cell as it is then.
  \<^item> A king of the human's colour: the opposite colour becomes the winner, the registered
    callback receives that winner, and the position, king included, is unchanged.
  \<^item> A piece that is not a king: winner and callback are untouched; the piece is removed
    when the removal test accepts, and the position is unchanged otherwise. The removal is
    refused when the resulting position would lack a king of either colour and, on a board
    with at most one king per colour, whenever the resulting position would not have
    exactly one king per colour. The number of kings of each colour never changes.
  \<^item> In every case the zone record of the cell and its timer entry are gone afterwards, and
    the fired task is no longer pending.
\<close>

theorem expiry_effect:
  assumes "find (\<lambda>x. task_id x = t) (pending g) = Some k" and "task_due k \<le> clock g"
    and "c = task_cell k" and "sq = coordsToSquare (ci c) (cj c)" and "g' = fire rp g t"
  shows "(\<forall>col. board (chess g) sq = Some (Piece King col) \<and> humanColor g = Some col \<longrightarrow>
            winner g' = Some (opp col)
            \<and> caught g' = (if kingCaughtCallback g then caught g @ [opp col] else caught g)
            \<and> chess g' = chess g)
       \<and> (\<forall>pc. board (chess g) sq = Some pc \<and> ptype_of pc \<noteq> King \<longrightarrow>
            winner g' = winner g \<and> caught g' = caught g
            \<and> (removal_accepted rp (chess g) sq \<longrightarrow>
                 board (chess g') = (board (chess g))(sq := None) \<and> turn (chess g') = turn (chess g))
            \<and> (\<not> removal_accepted rp (chess g) sq \<longrightarrow> chess g' = chess g)
            \<and> (kingCount (chess_remove (chess g) sq) White = 0
                 \<or> kingCount (chess_remove (chess g) sq) Black = 0 \<longrightarrow> chess g' = chess g)
            \<and> (kingCount (chess g) White \<le> 1 \<and> kingCount (chess g) Black \<le> 1
                 \<and> \<not> (kingCount (chess_remove (chess g) sq) White = 1
                        \<and> kingCount (chess_remove (chess g) sq) Black = 1) \<longrightarrow> chess g' = chess g)
            \<and> kingCount (chess g') White = kingCount (chess g) White
            \<and> kingCount (chess g') Black = kingCount (chess g) Black)
       \<and> dangerZones g' = filter (\<lambda>z. dz_position z \<noteq> c) (dangerZones g)
       \<and> \<not> isSquareDangerous g' (ci c) (cj c)
       \<and> map_of (dangerZoneTimers g') (key_of c) = None
       \<and> (\<forall>x \<in> set (pending g'). task_id x \<noteq> t)"
proof -
  define g0 where "g0 = g\<lparr>pending := filter (\<lambda>x. task_id x \<noteq> t) (pending g)\<rparr>"
  have g': "g' = expire rp g0 c"
    using fire_eq [OF assms(1,2)] assms(3,5) by (simp add: g0_def)
  have g0: "chess g0 = chess g" "humanColor g0 = humanColor g" "winner g0 = winner g"
    "caught g0 = caught g" "kingCaughtCallback g0 = kingCaughtCallback g"
    "dangerZones g0 = dangerZones g" "dangerZoneTimers g0 = dangerZoneTimers g"
    by (simp_all add: g0_def)
  have king: "winner g' = Some (opp col)
       \<and> caught g' = (if kingCaughtCallback g then caught g @ [opp col] else caught g)
       \<and> chess g' = chess g"
    if "board (chess g) sq = Some (Piece King col)" "humanColor g = Some col" for col
    using expire_king [of g0 c col rp] that assms(4) by (simp add: g' g0)
  have piece: "winner g' = winner g \<and> caught g' = caught g
       \<and> (removal_accepted rp (chess g) sq \<longrightarrow>
             board (chess g') = (board (chess g))(sq := None) \<and> turn (chess g') = turn (chess g))
       \<and> (\<not> removal_accepted rp (chess g) sq \<longrightarrow> chess g' = chess g)
       \<and> kingCount (chess g') White = kingCount (chess g) White
       \<and> kingCount (chess g') Black = kingCount (chess g) Black"
    if "board (chess g) sq = Some pc" "ptype_of pc \<noteq> King" for pc
    using expire_piece [of g0 c pc rp] expire_piece_board [of g0 c pc rp]
      expire_piece_kings [of g0 c pc rp] that assms(4)
    by (simp add: g' g0)
  have zones: "dangerZones g' = filter (\<lambda>z. dz_position z \<noteq> c) (dangerZones g)"
    by (simp add: g' expire_zones g0)
  then have safe: "\<not> isSquareDangerous g' (ci c) (cj c)"
    by (simp add: isSquareDangerous_iff)
  have timers: "map_of (dangerZoneTimers g') (key_of c) = None"
    by (simp add: g' expire_timers delete_lookup)
  have gone: "\<forall>x \<in> set (pending g'). task_id x \<noteq> t"
    using expire_pending [of rp g0 c] by (auto simp: g' g0_def)
  show ?thesis
    using king piece zones safe timers gone rejected_without_king [of "chess g" sq _ rp]
      rejected_unless_one_king [of "chess g" sq _ rp]
    by (intro conjI allI impI) (blast | simp)+
qed

lemma pawn_zone_state:
  "run rp pawn_expiry_run newGame =
     \<lparr>chess = start_position, redoStack = [],
      dangerZones = [\<lparr>dz_position = at 6 4, dz_timestamp = 0, dz_active = True\<rparr>],
      dangerZoneTimers = [(''6,4'', 1)],
      lastDangerSide = Black, dangerZoneQueue = [], winner = None,
      kingCaughtCallback = False, humanColor = None, settings = None,
      pending = [\<lparr>task_id = 1, task_due = 15000, task_cell = at 6 4\<rparr>],
      nextTimer = 2, clock = 15000, caught = []\<rparr>"
  by (simp add: run_def pawn_expiry_run_def addDangerZone_def areDangerZonesEnabled_def
      e2_square at_def newGame_def Let_def)

lemma king_zone_state:
  "run rp king_zone_run newGame =
     \<lparr>chess = start_position, redoStack = [],
      dangerZones = [\<lparr>dz_position = at 7 4, dz_timestamp = 0, dz_active = True\<rparr>],
      dangerZoneTimers = [(''7,4'', 1)],
      lastDangerSide = Black, dangerZoneQueue = [], winner = None,
      kingCaughtCallback = True, humanColor = Some White, settings = None,
      pending = [\<lparr>task_id = 1, task_due = 15000, task_cell = at 7 4\<rparr>],
      nextTimer = 2, clock = 15000, caught = []\<rparr>"
proof -
  have k: "key_of \<lparr>ci = 7, cj = 4\<rparr> = ''7,4''"
    by (simp add: key_of_def num_str_def dec_nat.simps digit_char_def)
  show ?thesis
    by (simp add: run_def king_zone_run_def addDangerZone_def areDangerZonesEnabled_def
        setHumanColor_def setKingCaughtCallback_def k at_def newGame_def Let_def)
qed

theorem expiry_effect_witness:
  "find (\<lambda>x. task_id x = 1) (pending (run opening_rules pawn_expiry_run newGame)) =
       Some \<lparr>task_id = 1, task_due = 15000, task_cell = at 6 4\<rparr>
   \<and> 15000 \<le> clock (run opening_rules pawn_expiry_run newGame)
   \<and> board (chess (run opening_rules pawn_expiry_run newGame)) ''e2'' = Some (Piece Pawn White)
   \<and> board (chess (fire opening_rules (run opening_rules pawn_expiry_run newGame) 1)) =
       (board start_position)(''e2'' := None)
   \<and> dangerZones (fire opening_rules (run opening_rules pawn_expiry_run newGame) 1) = []
   \<and> board (chess (run opening_rules king_zone_run newGame)) ''e1'' = Some (Piece King White)
   \<and> winner (fire opening_rules (run opening_rules king_zone_run newGame) 1) = Some Black
   \<and> caught (fire opening_rules (run opening_rules king_zone_run newGame) 1) = [Black]
   \<and> chess (fire opening_rules (run opening_rules king_zone_run newGame) 1) = start_position
   \<and> dangerZones (fire opening_rules (run opening_rules king_zone_run newGame) 1) = []"
proof -
  let ?G = "run opening_rules pawn_expiry_run newGame"
  let ?K = "run opening_rules king_zone_run newGame"
  have p1: "find (\<lambda>x. task_id x = 1) (pending ?G) =
      Some \<lparr>task_id = 1, task_due = 15000, task_cell = at 6 4\<rparr>"
    by (simp add: pawn_zone_state)
  have p2: "task_due \<lparr>task_id = 1, task_due = 15000, task_cell = at 6 4\<rparr> \<le> clock ?G"
    by (simp add: pawn_zone_state)
  have k1: "find (\<lambda>x. task_id x = 1) (pending ?K) =
      Some \<lparr>task_id = 1, task_due = 15000, task_cell = at 7 4\<rparr>"
    by (simp add: king_zone_state)
  have k2: "task_due \<lparr>task_id = 1, task_due = 15000, task_cell = at 7 4\<rparr> \<le> clock ?K"
    by (simp add: king_zone_state)
  have e1: "coordsToSquare 7 4 = ''e1''"
    by (simp add: coordsToSquare_def files_def num_str_def dec_nat.simps digit_char_def)
  have b1: "board start_position ''e1'' = Some (Piece King White)"
    by (simp add: start_position_def start_squares_def files_def back_rank_def)
  note P = expiry_effect [OF p1 p2 refl refl refl]
  note K = expiry_effect [OF k1 k2 refl refl refl]
  have pawn: "board (chess (fire opening_rules ?G 1)) = (board start_position)(''e2'' := None)"
    "dangerZones (fire opening_rules ?G 1) = []"
    using P by (simp_all add: at_def e2_square pawn_zone_state start_e2 start_removal_accepted)
  have king: "winner (fire opening_rules ?K 1) = Some Black"
    "caught (fire opening_rules ?K 1) = [Black]"
    "chess (fire opening_rules ?K 1) = start_position"
    "dangerZones (fire opening_rules ?K 1) = []"
    using K by (simp_all add: at_def e1 b1 king_zone_state)
  show ?thesis
    using pawn king p1 by (simp add: pawn_zone_state king_zone_state start_e2 b1)
qed

section \<open>Properties of moves\<close>

lemma chess_move_Some:
  assumes "chess_move rp p f t promo = Some q"
  shows "\<exists>m \<in> set (legal rp p). matches f t promo m \<and> q = after rp p m"
proof -
  from assms obtain m where m: "find (matches f t promo) (legal rp p) = Some m"
    and q: "q = after rp p m"
    by (auto simp: chess_move_def split: option.splits)
  from m have "m \<in> set (legal rp p)" "matches f t promo m"
    by (auto simp: find_Some_iff)
  with q show ?thesis by blast
qed

lemma chess_move_None:
  "(chess_move rp p f t promo = None) = (\<forall>m \<in> set (legal rp p). \<not> matches f t promo m)"
proof -
  have "(chess_move rp p f t promo = None) = (find (matches f t promo) (legal rp p) = None)"
    by (simp add: chess_move_def split: option.splits)
  then show ?thesis by (auto simp: find_None_iff)
qed

text \<open>
  C9. \<open>movePiece\<close> succeeds exactly when the library has a legal move for the two squares
  (promoting to a queen if it promotes). Given the library's contract that a move passes
  the turn, after every successful \<open>movePiece\<close> the side to move is the opposite of the one
  before, so it differs from it; an unsuccessful \<open>movePiece\<close> leaves the whole game state,
  and so the side to move, unchanged.
\<close>

theorem movePiece_turn:
  assumes "turn_contract rp"
  shows "(snd (movePiece rp g a b) \<longrightarrow>
            getCurrentTurn (fst (movePiece rp g a b)) = opp (getCurrentTurn g)
            \<and> getCurrentTurn (fst (movePiece rp g a b)) \<noteq> getCurrentTurn g)
       \<and> (\<not> snd (movePiece rp g a b) \<longrightarrow> fst (movePiece rp g a b) = g)
       \<and> snd (movePiece rp g a b) =
           (\<exists>m \<in> set (legal rp (chess g)).
              matches (coordsToSquare (ci a) (cj a)) (coordsToSquare (ci b) (cj b)) Queen m)"
proof (cases "chess_move rp (chess g) (coordsToSquare (ci a) (cj a)) (coordsToSquare (ci b) (cj b)) Queen")
  case None
  then have "\<forall>m \<in> set (legal rp (chess g)).
      \<not> matches (coordsToSquare (ci a) (cj a)) (coordsToSquare (ci b) (cj b)) Queen m"
    by (simp add: chess_move_None)
  then show ?thesis by (simp add: movePiece_def None)
next
  case (Some q)
  from chess_move_Some [OF Some] obtain m where m: "m \<in> set (legal rp (chess g))"
    "matches (coordsToSquare (ci a) (cj a)) (coordsToSquare (ci b) (cj b)) Queen m"
    "q = after rp (chess g) m"
    by blast
  from assms m(1) have "turn (after rp (chess g) m) = opp (turn (chess g))"
    by (simp add: turn_contract_def)
  then have "turn q = opp (turn (chess g))" by (simp add: m(3))
  moreover have "opp x \<noteq> x" for x by (cases x) simp_all
  ultimately show ?thesis
    using Some m(1,2) by (auto simp: movePiece_def getCurrentTurn_def)
qed

theorem movePiece_turn_witness:
  "turn_contract opening_rules
   \<and> getCurrentTurn newGame = White
   \<and> snd (movePiece opening_rules newGame (at 6 4) (at 4 4))
   \<and> getCurrentTurn (fst (movePiece opening_rules newGame (at 6 4) (at 4 4))) = Black
   \<and> \<not> snd (movePiece opening_rules newGame (at 6 4) (at 3 4))
   \<and> fst (movePiece opening_rules newGame (at 6 4) (at 3 4)) = newGame"
proof -
  have c: "turn_contract opening_rules"
    by (simp add: turn_contract_def opening_rules_def scripted_def relocate_def)
  have sq: "coordsToSquare 4 4 = ''e4''" "coordsToSquare 3 4 = ''e5''"
    by (simp_all add: coordsToSquare_def files_def num_str_def dec_nat.simps digit_char_def)
  have b: "board start_position ''e3'' = None" "board start_position ''e4'' = None"
    by (simp_all add: start_position_def start_squares_def files_def back_rank_def)
  have l: "legal opening_rules (chess newGame) =
      [mv ''e2'' ''e3'' None ''e3'', mv ''e2'' ''e4'' None ''e4'']"
    by (simp add: opening_rules_def scripted_def newGame_def start_e2 b) (simp add: start_position_def)
  have t: "getCurrentTurn newGame = White"
    by (simp add: getCurrentTurn_def newGame_def start_position_def)
  from movePiece_turn [OF c, of newGame "at 6 4" "at 4 4"]
       movePiece_turn [OF c, of newGame "at 6 4" "at 3 4"]
  show ?thesis
    by (simp add: c t l at_def e2_square sq matches_def mv_def)
qed

section \<open>Properties of the returned danger-zone array\<close>

lemma mutate_other:
  assumes "r \<noteq> zonesRef h" and "heap_ok h"
  shows "h_zones (mutate r h x) = h_zones h \<and> zonesRef (mutate r h x) = zonesRef h
       \<and> heap_ok (mutate r h x)"
proof -
  have old: "map ((objects h)(nextAddr h := z)) (arrays h (zonesRef h)) =
             map (objects h) (arrays h (zonesRef h))" for z
    using assms(2) by (auto simp: heap_ok_def list_all_iff)
  have ok: "list_all (\<lambda>a. a < Suc (nextAddr h)) (arrays h (zonesRef h))"
    using assms(2) by (auto simp: heap_ok_def list_all_iff)
  show ?thesis
    using assms old ok by (cases x) (simp_all add: h_zones_def heap_ok_def)
qed

lemma mutate_all_other:
  assumes "r \<noteq> zonesRef h" and "heap_ok h"
  shows "h_zones (foldl (mutate r) h xs) = h_zones h \<and> zonesRef (foldl (mutate r) h xs) = zonesRef h
       \<and> heap_ok (foldl (mutate r) h xs)"
  using assms
proof (induction xs arbitrary: h)
  case Nil
  then show ?case by simp
next
  case (Cons x xs)
  from mutate_other [OF Cons.prems, of x]
  have s: "h_zones (mutate r h x) = h_zones h" "zonesRef (mutate r h x) = zonesRef h"
    "heap_ok (mutate r h x)" by blast+
  from Cons.prems(1) s(2) have "r \<noteq> zonesRef (mutate r h x)" by simp
  from Cons.IH [OF this s(3)] s show ?case by simp
qed

lemma getDangerZones_ref_copy:
  assumes "heap_ok h"
  shows "h_zones (fst (getDangerZones_ref h)) = h_zones h"
    and "read_array (fst (getDangerZones_ref h)) (snd (getDangerZones_ref h)) = h_zones h"
    and "snd (getDangerZones_ref h) \<noteq> zonesRef (fst (getDangerZones_ref h))"
    and "heap_ok (fst (getDangerZones_ref h))"
    and "zonesRef (fst (getDangerZones_ref h)) = zonesRef h"
  using assms
  by (auto simp: getDangerZones_ref_def h_zones_def read_array_def heap_ok_def list_all_iff)

text \<open>
  C10. \<open>getDangerZones\<close> returns a new array with the contents of the internal one. Whatever
  entries a caller then adds to or removes from the returned array, the game's own zone
  list is the same as before, so \<open>isSquareDangerous\<close> answers as before and a later
  \<open>getDangerZones\<close> returns the same contents as the first one did.
\<close>

theorem getDangerZones_fresh_copy:
  assumes "heap_ok h" and "getDangerZones_ref h = (h1, r)" and "h2 = foldl (mutate r) h1 xs"
  shows "read_array h1 r = h_zones h
       \<and> r \<noteq> zonesRef h
       \<and> h_zones h2 = h_zones h
       \<and> isSquareDangerous_ref h2 i j = isSquareDangerous_ref h i j
       \<and> read_array (fst (getDangerZones_ref h2)) (snd (getDangerZones_ref h2)) = h_zones h"
proof -
  have h1: "h1 = fst (getDangerZones_ref h)" and r: "r = snd (getDangerZones_ref h)"
    using assms(2) by simp_all
  note c = getDangerZones_ref_copy [OF assms(1), folded h1 r]
  from c(3) c(5) have ne: "r \<noteq> zonesRef h" by simp
  from mutate_all_other [OF c(3) c(4), of xs]
  have m: "h_zones h2 = h_zones h1" "heap_ok h2" by (simp_all add: assms(3))
  from getDangerZones_ref_copy(2) [OF m(2)]
  have "read_array (fst (getDangerZones_ref h2)) (snd (getDangerZones_ref h2)) = h_zones h2" .
  with c(1,2) ne m(1) show ?thesis
    by (simp add: isSquareDangerous_ref_def)
qed

theorem getDangerZones_fresh_copy_witness:
  "heap_ok example_heap
   \<and> snd (getDangerZones_ref example_heap) = 3
   \<and> read_array (fst (getDangerZones_ref example_heap)) 3 = h_zones example_heap
   \<and> isSquareDangerous_ref example_heap 4 4
   \<and> read_array (foldl (mutate 3) (fst (getDangerZones_ref example_heap)) [Pop, Shift]) 3 = []
   \<and> isSquareDangerous_ref (foldl (mutate 3) (fst (getDangerZones_ref example_heap)) [Pop, Shift]) 4 4
   \<and> h_zones (foldl (mutate 3) (fst (getDangerZones_ref example_heap)) [Pop, Shift]) =
       h_zones example_heap"
proof -
  have ok: "heap_ok example_heap"
    by (simp add: heap_ok_def example_heap_def)
  have g: "getDangerZones_ref example_heap = (fst (getDangerZones_ref example_heap), 3)"
    by (simp add: getDangerZones_ref_def example_heap_def)
  have d: "isSquareDangerous_ref example_heap 4 4"
    by (simp add: isSquareDangerous_ref_def h_zones_def example_heap_def at_def)
  have e: "read_array (foldl (mutate 3) (fst (getDangerZones_ref example_heap)) [Pop, Shift]) 3 = []"
    by (simp add: read_array_def getDangerZones_ref_def example_heap_def)
  from getDangerZones_fresh_copy [OF ok g refl, of "[Pop, Shift]" 4 4] ok d e
  show ?thesis by (simp add: getDangerZones_ref_def example_heap_def)
qed

text \<open>The heap view agrees with the list model of the game on what the methods read.\<close>

lemma heap_agrees:
  "h_zones h = dangerZones g \<Longrightarrow>
     isSquareDangerous_ref h i j = isSquareDangerous g i j
     \<and> read_array (fst (getDangerZones_ref h)) (snd (getDangerZones_ref h)) = getDangerZones g"
  by (simp add: isSquareDangerous_ref_def isSquareDangerous_def getDangerZones_def
      getDangerZones_ref_def read_array_def h_zones_def)

section \<open>Properties of bot move selection\<close>

lemma wellFormed_iff: "wellFormedSquare s = (s \<in> set squares64)"
proof
  assume w: "wellFormedSquare s"
  then have "length s = 2" by (simp add: wellFormedSquare_def)
  then obtain f r where s: "s = [f, r]"
    by (cases s; cases "tl s") auto
  with w show "s \<in> set squares64" by (auto simp: wellFormedSquare_def squares64_def)
next
  assume "s \<in> set squares64"
  then show "wellFormedSquare s" by (auto simp: wellFormedSquare_def squares64_def)
qed

lemma wellFormed_cell:
  assumes "wellFormedSquare s"
  obtains i j where "validCell i j" "coordsToSquare i j = s" "squareToCoords s = (Some i, j)"
proof -
  from assms squares64_cover obtain i j where ij: "validCell i j" "coordsToSquare i j = s"
    unfolding wellFormed_iff by blast
  from roundtrip [OF ij(1)] ij(2) have "squareToCoords s = (Some i, j)" by simp
  with ij that show ?thesis by blast
qed

lemma bot_moves_plain:
  "b \<in> set (bot_getValidMoves rp g c) \<Longrightarrow> bm_piece b = None \<and> bm_captured b = None"
  by (auto simp: bot_getValidMoves_def pd_type_def getCapturedPiece_def
      split: option.splits if_splits)

lemma bot_moves_legal:
  assumes "b \<in> set (bot_getValidMoves rp g c)"
  obtains m where "m \<in> set (legal rp (chess g))" "bm_from b = mv_from m"
    "bm_to b = coordsToSquareN (fst (squareToCoords (mv_to m))) (snd (squareToCoords (mv_to m)))"
  using assms
  by (auto simp: bot_getValidMoves_def getValidMoves_def chess_moves_def
      split: option.splits if_splits)

lemma bot_moves_member:
  assumes "m \<in> set (legal rp (chess g))"
    and "wellFormedSquare (mv_from m)" and "wellFormedSquare (mv_to m)"
    and "board (chess g) (mv_from m) = Some pc" and "color_of pc = c"
  shows "\<lparr>bm_from = mv_from m, bm_to = mv_to m, bm_piece = None, bm_captured = None\<rparr>
           \<in> set (bot_getValidMoves rp g c)"
proof -
  from assms(2) obtain i j where ij: "validCell i j" "coordsToSquare i j = mv_from m"
    by (rule wellFormed_cell)
  from assms(3) obtain x y where xy: "coordsToSquare x y = mv_to m"
    "squareToCoords (mv_to m) = (Some x, y)"
    by (rule wellFormed_cell)
  have cell: "(i, j) \<in> set cells8" using ij(1) by (simp add: set_cells8)
  have piece: "getPiece g i j = Some \<lparr>pd_id = pieceToId pc, pd_color = c\<rparr>"
    using assms(4,5) ij(2) by (simp add: getPiece_def)
  have target: "(Some x, y) \<in> set (getValidMoves rp g i j)"
    using assms(1) ij(2) xy(2) by (force simp: getValidMoves_def chess_moves_def)
  have cap: "getCapturedPiece g c (Some x) y = None"
    by (simp add: getCapturedPiece_def pd_type_def split: option.splits)
  define F where "F = (\<lambda>(i, j).
        case getPiece g i j of
          None \<Rightarrow> []
        | Some piece \<Rightarrow>
            if pd_color piece = c
            then map (\<lambda>target.
                   \<lparr>bm_from = coordsToSquare i j,
                    bm_to = coordsToSquareN (fst target) (snd target),
                    bm_piece = pd_type piece,
                    bm_captured = getCapturedPiece g c (fst target) (snd target)\<rparr>)
                 (getValidMoves rp g i j)
            else [])"
  have all: "set (bot_getValidMoves rp g c) = (\<Union>x \<in> set cells8. set (F x))"
    by (simp add: bot_getValidMoves_def F_def)
  have "F (i, j) = map (\<lambda>target.
                   \<lparr>bm_from = coordsToSquare i j,
                    bm_to = coordsToSquareN (fst target) (snd target),
                    bm_piece = None,
                    bm_captured = getCapturedPiece g c (fst target) (snd target)\<rparr>)
                 (getValidMoves rp g i j)"
    by (simp add: F_def piece pd_type_def)
  then have "\<lparr>bm_from = coordsToSquare i j, bm_to = coordsToSquareN (fst (Some x, y)) (snd (Some x, y)),
         bm_piece = None,
         bm_captured = getCapturedPiece g c (fst (Some x, y)) (snd (Some x, y))\<rparr> \<in> set (F (i, j))"
    using target by (simp only: set_map) (rule imageI)
  with cell have "\<lparr>bm_from = coordsToSquare i j, bm_to = coordsToSquareN (fst (Some x, y)) (snd (Some x, y)),
         bm_piece = None,
         bm_captured = getCapturedPiece g c (fst (Some x, y)) (snd (Some x, y))\<rparr>
        \<in> set (bot_getValidMoves rp g c)"
    unfolding all by (rule UN_I)
  then show ?thesis
    by (simp add: ij(2) xy(1) cap coordsToSquareN_def pd_type_def)
qed

lemma find_first_finds:
  assumes "\<forall>x \<in> set xs. \<exists>v. P x = Inr v" and "\<exists>x \<in> set xs. P x = Inr True"
  shows "\<exists>y \<in> set xs. find_first P xs = Inr (Some y) \<and> P y = Inr True"
  using assms
proof (induction xs)
  case Nil
  then show ?case by simp
next
  case (Cons x xs)
  from Cons.prems(1) obtain v where v: "P x = Inr v" by auto
  show ?case
  proof (cases v)
    case True
    with v show ?thesis by simp
  next
    case False
    with v Cons.prems have "\<forall>x \<in> set xs. \<exists>v. P x = Inr v" "\<exists>x \<in> set xs. P x = Inr True"
      by auto
    from Cons.IH [OF this] v False show ?thesis by auto
  qed
qed

lemma find_False: "find (\<lambda>x. False) xs = None"
  by (induction xs) simp_all

lemma worthRescuing_never: "worthRescuing ms d = False"
  by (simp add: worthRescuing_def pd_type_def)

lemma tiers_2_to_5_dead:
  "valuableCapture (bot_getValidMoves rp g c) = None"
  "findKingPosition g c = None"
  "findSafeCapture rp g c (bot_getValidMoves rp g c) = None"
  "findPieceRescueMove sm g c (bot_getValidMoves rp g c) = None"
proof -
  have no: "filter (\<lambda>m. bm_captured m \<noteq> None \<and> Q m) (bot_getValidMoves rp g c) = []" for Q
    using bot_moves_plain [of _ rp g c] by (auto simp: filter_empty_conv)
  have no': "filter (\<lambda>m. bm_captured m \<noteq> None) (bot_getValidMoves rp g c) = []"
    using bot_moves_plain [of _ rp g c] by (auto simp: filter_empty_conv)
  show "valuableCapture (bot_getValidMoves rp g c) = None"
    by (simp only: valuableCapture_def no) simp
  have "find (\<lambda>(i, j). case getPiece g i j of
                    None \<Rightarrow> False
                  | Some piece \<Rightarrow> pd_type piece = Some King \<and> pd_color piece = c) cells8 = None"
    unfolding find_None_iff by (auto simp: pd_type_def split: option.splits)
  then show "findKingPosition g c = None"
    by (simp add: findKingPosition_def)
  show "findSafeCapture rp g c (bot_getValidMoves rp g c) = None"
    by (simp only: findSafeCapture_def no') simp
  show "findPieceRescueMove sm g c (bot_getValidMoves rp g c) = None"
    by (simp add: findPieceRescueMove_def worthRescuing_never pd_type_def find_False Let_def)
qed

lemma selectMoveByLevel_eq:
  "selectMoveByLevel rp ch g bt =
     (case findCheckmateMove rp g (cor bt) of
        Inl e \<Rightarrow> Inl e
      | Inr (Some mateMove) \<Rightarrow> Inr (Some mateMove)
      | Inr None \<Rightarrow>
          (case nivel bt of
             Facil \<Rightarrow> fazerMovimentoFacil rp (draw ch) g (bot_getValidMoves rp g (cor bt))
           | Medio \<Rightarrow> searched ch Medio
           | Dificil \<Rightarrow> searched ch Dificil))"
  by (simp add: selectMoveByLevel_def tiers_2_to_5_dead getKingDefenseMove_def Let_def
      split: sum.splits option.splits)

text \<open>
  What the high-value tier computes from a list of move records, whatever their origin:
  a record whose captured piece is worth at least a rook and at least as much as the
  captured piece of every other record. Only this one record is tested for danger.
\<close>

lemma valuableCapture_highest:
  assumes "valuableCapture ms = Some m"
  shows "m \<in> set ms \<and> bm_captured m \<noteq> None \<and> pieceValues Rook \<le> capturedValue m
       \<and> (\<forall>x \<in> set ms. capturedValue x \<le> capturedValue m)"
proof -
  let ?P = "\<lambda>m. bm_captured m \<noteq> None \<and> pieceValues Rook \<le> capturedValue m"
  let ?k = "\<lambda>m. - int (capturedValue m)"
  from assms obtain rest where L: "sort_key ?k (filter ?P ms) = m # rest"
    by (auto simp: valuableCapture_def split: list.splits)
  have "set (sort_key ?k (filter ?P ms)) = set (filter ?P ms)" by simp
  with L have mem: "set (filter ?P ms) = insert m (set rest)" by simp
  then have m: "m \<in> set ms" "?P m" by auto
  have "sorted (map ?k (sort_key ?k (filter ?P ms)))" by (rule sorted_sort_key)
  with L have le: "\<forall>x \<in> set rest. ?k m \<le> ?k x" by simp
  have "capturedValue x \<le> capturedValue m" if "x \<in> set ms" for x
  proof (cases "?P x")
    case True
    with that mem have "x = m \<or> x \<in> set rest" by auto
    with le show ?thesis by auto
  next
    case False
    then have "capturedValue x < pieceValues Rook"
      by (auto simp: capturedValue_def)
    with m(2) show ?thesis by simp
  qed
  with m show ?thesis by blast
qed

lemma valuableCapture_none:
  "(valuableCapture ms = None) =
   (\<forall>x \<in> set ms. bm_captured x = None \<or> capturedValue x < pieceValues Rook)"
proof -
  let ?P = "\<lambda>m. bm_captured m \<noteq> None \<and> pieceValues Rook \<le> capturedValue m"
  let ?k = "\<lambda>m. - int (capturedValue m)"
  have "(valuableCapture ms = None) = (sort_key ?k (filter ?P ms) = [])"
    by (simp add: valuableCapture_def split: list.splits)
  also have "\<dots> = (set (sort_key ?k (filter ?P ms)) = {})"
    by (simp only: set_empty)
  also have "\<dots> = (\<forall>x \<in> set ms. bm_captured x = None \<or> capturedValue x < pieceValues Rook)"
    by (auto simp: filter_empty_conv)
  finally show ?thesis .
qed

lemma bot_moves_no_fault:
  assumes "fen_ok rp (chess g)" and "moves_contract rp (chess g)"
    and "b \<in> set (bot_getValidMoves rp g c)"
  shows "\<exists>v. isCheckmateMove rp g b = Inr v"
proof -
  from assms(3) obtain m where m: "m \<in> set (legal rp (chess g))" "bm_from b = mv_from m"
    "bm_to b = coordsToSquareN (fst (squareToCoords (mv_to m))) (snd (squareToCoords (mv_to m)))"
    by (rule bot_moves_legal)
  from assms(2) m(1) have wf: "wellFormedSquare (mv_to m)"
    and q: "\<exists>q \<in> set (legal rp (chess g)). matches (mv_from m) (mv_to m) Queen q"
    by (auto simp: moves_contract_def)
  from wf obtain x y where "coordsToSquare x y = mv_to m" "squareToCoords (mv_to m) = (Some x, y)"
    by (rule wellFormed_cell)
  with m(3) have to: "bm_to b = mv_to m" by (simp add: coordsToSquareN_def)
  from q have "find (matches (bm_from b) (bm_to b) Queen) (legal rp (chess g)) \<noteq> None"
    by (auto simp: find_None_iff m(2) to)
  then show ?thesis
    using assms(1)
    by (auto simp: isCheckmateMove_def try_move_def load_fen_def split: option.splits)
qed

text \<open>
  C4 as stated fails: the mate test plays every candidate with a queen promotion, as the
  game itself does. With White Ka1 and pawn f7 against Black Kh7, Rh8, Ng8, g7, h6, White
  has the mate \<open>f8=N#\<close>, but \<open>f8=Q\<close> and \<open>fxg8=Q+\<close> are not mate, so the mate tier finds
  nothing and the easy level answers with the checking capture \<open>f7\<close> to \<open>g8\<close>, which is not
  mate under any promotion.
\<close>

theorem mate_in_one_counterexample:
  "(\<exists>m \<in> set (legal knight_mate_rules (chess knight_mate_game)).
      in_checkmate knight_mate_rules (after knight_mate_rules (chess knight_mate_game) m))
   \<and> deveJogar knight_mate_game (bot_of Facil White)
   \<and> selectMoveByLevel knight_mate_rules first_draw knight_mate_game (bot_of Facil White) =
       Inr (Some \<lparr>bm_from = ''f7'', bm_to = ''g8'', bm_piece = None, bm_captured = None\<rparr>)
   \<and> snd (fazerMovimento knight_mate_rules first_draw knight_mate_game (bot_of Facil White)) =
       Some \<lparr>bm_from = ''f7'', bm_to = ''g8'', bm_piece = None, bm_captured = None\<rparr>
   \<and> \<not> (\<exists>m \<in> set (legal knight_mate_rules (chess knight_mate_game)).
          mv_from m = ''f7'' \<and> mv_to m = ''g8''
          \<and> in_checkmate knight_mate_rules (after knight_mate_rules (chess knight_mate_game) m))"
  by code_simp

text \<open>
  C4, amended. Suppose the library accepts the game's FEN and keeps its contract at the
  position, and the bot has a legal move that gives checkmate when it is made the way the
  game makes moves, that is, promoting to a queen if it promotes. Then at every level
  (easy, medium, hard) \<open>selectMoveByLevel\<close> answers with one of the bot's moves that gives
  checkmate when made that way, and so does \<open>fazerMovimento\<close> when it is the bot's turn.
\<close>

theorem mate_in_one_priority:
  assumes "fen_ok rp (chess g)" and "moves_contract rp (chess g)"
    and "m \<in> set (legal rp (chess g))"
    and "board (chess g) (mv_from m) = Some pc" and "color_of pc = cor bt"
    and "find (matches (mv_from m) (mv_to m) Queen) (legal rp (chess g)) = Some q"
    and "in_checkmate rp (after rp (chess g) q)"
  shows "\<forall>l. \<exists>b \<in> set (bot_getValidMoves rp g (cor bt)).
           selectMoveByLevel rp ch g (bt\<lparr>nivel := l\<rparr>) = Inr (Some b)
           \<and> isCheckmateMove rp g b = Inr True
           \<and> (deveJogar g (bt\<lparr>nivel := l\<rparr>) \<longrightarrow>
                snd (fazerMovimento rp ch g (bt\<lparr>nivel := l\<rparr>)) = Some b)"
proof
  fix l
  let ?b0 = "\<lparr>bm_from = mv_from m, bm_to = mv_to m, bm_piece = None, bm_captured = None\<rparr>"
  from assms(2,3) have wf: "wellFormedSquare (mv_from m)" "wellFormedSquare (mv_to m)"
    by (auto simp: moves_contract_def)
  have b0: "?b0 \<in> set (bot_getValidMoves rp g (cor bt))"
    using assms(3) wf assms(4,5) by (rule bot_moves_member)
  have mate: "isCheckmateMove rp g ?b0 = Inr True"
    using assms(1,6,7) by (simp add: isCheckmateMove_def try_move_def load_fen_def)
  have "\<forall>b \<in> set (bot_getValidMoves rp g (cor bt)). \<exists>v. isCheckmateMove rp g b = Inr v"
    using bot_moves_no_fault [OF assms(1,2)] by blast
  moreover have "\<exists>b \<in> set (bot_getValidMoves rp g (cor bt)). isCheckmateMove rp g b = Inr True"
    using b0 mate by blast
  ultimately obtain b where b: "b \<in> set (bot_getValidMoves rp g (cor bt))"
    "findCheckmateMove rp g (cor bt) = Inr (Some b)" "isCheckmateMove rp g b = Inr True"
    unfolding findCheckmateMove_def using find_first_finds by blast
  have sel: "selectMoveByLevel rp ch g (bt\<lparr>nivel := l\<rparr>) = Inr (Some b)"
    by (simp add: selectMoveByLevel_eq b(2))
  then have "deveJogar g (bt\<lparr>nivel := l\<rparr>) \<longrightarrow>
      snd (fazerMovimento rp ch g (bt\<lparr>nivel := l\<rparr>)) = Some b"
    by (simp add: fazerMovimento_def)
  with b sel show "\<exists>b \<in> set (bot_getValidMoves rp g (cor bt)).
           selectMoveByLevel rp ch g (bt\<lparr>nivel := l\<rparr>) = Inr (Some b)
           \<and> isCheckmateMove rp g b = Inr True
           \<and> (deveJogar g (bt\<lparr>nivel := l\<rparr>) \<longrightarrow>
                snd (fazerMovimento rp ch g (bt\<lparr>nivel := l\<rparr>)) = Some b)"
    by blast
qed

theorem mate_in_one_priority_witness:
  "fen_ok back_rank_rules (chess back_rank_game)
   \<and> moves_contract back_rank_rules (chess back_rank_game)
   \<and> mv ''a1'' ''a8'' None ''Ra8#'' \<in> set (legal back_rank_rules (chess back_rank_game))
   \<and> board (chess back_rank_game) ''a1'' = Some (Piece Rook White)
   \<and> in_checkmate back_rank_rules
        (after back_rank_rules (chess back_rank_game) (mv ''a1'' ''a8'' None ''Ra8#''))
   \<and> selectMoveByLevel back_rank_rules first_draw back_rank_game (bot_of Facil White) =
        Inr (Some \<lparr>bm_from = ''a1'', bm_to = ''a8'', bm_piece = None, bm_captured = None\<rparr>)
   \<and> selectMoveByLevel back_rank_rules first_draw back_rank_game (bot_of Medio White) =
        Inr (Some \<lparr>bm_from = ''a1'', bm_to = ''a8'', bm_piece = None, bm_captured = None\<rparr>)
   \<and> selectMoveByLevel back_rank_rules first_draw back_rank_game (bot_of Dificil White) =
        Inr (Some \<lparr>bm_from = ''a1'', bm_to = ''a8'', bm_piece = None, bm_captured = None\<rparr>)"
proof -
  have h1: "fen_ok back_rank_rules (chess back_rank_game)" by code_simp
  have h2: "moves_contract back_rank_rules (chess back_rank_game)" by code_simp
  have h3: "mv ''a1'' ''a8'' None ''Ra8#'' \<in> set (legal back_rank_rules (chess back_rank_game))"
    by code_simp
  have h4: "board (chess back_rank_game) (mv_from (mv ''a1'' ''a8'' None ''Ra8#'')) =
      Some (Piece Rook White)" by code_simp
  have h5: "color_of (Piece Rook White) = cor (bot_of Facil White)" by code_simp
  have h6: "find (matches (mv_from (mv ''a1'' ''a8'' None ''Ra8#'')) (mv_to (mv ''a1'' ''a8'' None ''Ra8#'')) Queen)
      (legal back_rank_rules (chess back_rank_game)) = Some (mv ''a1'' ''a8'' None ''Ra8#'')"
    by code_simp
  have h7: "in_checkmate back_rank_rules
      (after back_rank_rules (chess back_rank_game) (mv ''a1'' ''a8'' None ''Ra8#''))"
    by code_simp
  have only: "\<forall>b \<in> set (bot_getValidMoves back_rank_rules back_rank_game White).
      isCheckmateMove back_rank_rules back_rank_game b = Inr True \<longrightarrow>
      b = \<lparr>bm_from = ''a1'', bm_to = ''a8'', bm_piece = None, bm_captured = None\<rparr>"
    by code_simp
  have lv: "bot_of Facil White\<lparr>nivel := l\<rparr> = bot_of l White" for l
    by (simp add: bot_of_def)
  have c: "cor (bot_of Facil White) = White" by (simp add: bot_of_def)
  from mate_in_one_priority [OF h1 h2 h3 h4 h5 h6 h7, of first_draw] only
  have "selectMoveByLevel back_rank_rules first_draw back_rank_game (bot_of l White) =
        Inr (Some \<lparr>bm_from = ''a1'', bm_to = ''a8'', bm_piece = None, bm_captured = None\<rparr>)" for l
    unfolding lv c by blast
  with h1 h2 h3 h4 h7 show ?thesis by (simp add: mv_def)
qed

text \<open>
  C5. The high-value capture tier never applies. The bot's move records take \<open>piece\<close> and
  \<open>captured\<close> from \<open>piece.type\<close> of what \<open>Game.getPiece\<close> returns, and that object has no
  \<open>type\<close>: every record has \<open>captured = null\<close>, so the tier's filter is empty (as are the
  king search, the safe-capture tier and the rescue tier). With Black Ka8 and pawn e5
  against White Kh1 and Rf4, Black to move, there is no mate in one and \<open>exf4\<close> takes a
  rook on a square without a danger zone; on the easy level, when the random index is 0,
  the bot answers \<open>Kb8\<close>.
\<close>

theorem high_value_capture_never_applies:
  "valuableCapture (bot_getValidMoves rp g c) = None
   \<and> list_all (\<lambda>b. bm_captured b = None \<and> bm_piece b = None) (bot_getValidMoves rp g c)
   \<and> mv ''e5'' ''f4'' None ''exf4'' \<in> set (legal rook_capture_rules (chess rook_capture_game))
   \<and> board (chess rook_capture_game) ''f4'' = Some (Piece Rook White)
   \<and> \<not> isSquareDangerous rook_capture_game 4 5
   \<and> coordsToSquare 4 5 = ''f4''
   \<and> deveJogar rook_capture_game (bot_of Facil Black)
   \<and> findCheckmateMove rook_capture_rules rook_capture_game Black = Inr None
   \<and> selectMoveByLevel rook_capture_rules first_draw rook_capture_game (bot_of Facil Black) =
       Inr (Some \<lparr>bm_from = ''a8'', bm_to = ''b8'', bm_piece = None, bm_captured = None\<rparr>)
   \<and> snd (fazerMovimento rook_capture_rules first_draw rook_capture_game (bot_of Facil Black)) =
       Some \<lparr>bm_from = ''a8'', bm_to = ''b8'', bm_piece = None, bm_captured = None\<rparr>"
proof -
  have "valuableCapture (bot_getValidMoves rp g c) = None"
    by (rule tiers_2_to_5_dead)
  moreover have "list_all (\<lambda>b. bm_captured b = None \<and> bm_piece b = None) (bot_getValidMoves rp g c)"
    using bot_moves_plain [of _ rp g c] by (simp add: list_all_iff)
  moreover have "mv ''e5'' ''f4'' None ''exf4'' \<in> set (legal rook_capture_rules (chess rook_capture_game))
   \<and> board (chess rook_capture_game) ''f4'' = Some (Piece Rook White)
   \<and> \<not> isSquareDangerous rook_capture_game 4 5
   \<and> coordsToSquare 4 5 = ''f4''
   \<and> deveJogar rook_capture_game (bot_of Facil Black)
   \<and> findCheckmateMove rook_capture_rules rook_capture_game Black = Inr None
   \<and> selectMoveByLevel rook_capture_rules first_draw rook_capture_game (bot_of Facil Black) =
       Inr (Some \<lparr>bm_from = ''a8'', bm_to = ''b8'', bm_piece = None, bm_captured = None\<rparr>)
   \<and> snd (fazerMovimento rook_capture_rules first_draw rook_capture_game (bot_of Facil Black)) =
       Some \<lparr>bm_from = ''a8'', bm_to = ''b8'', bm_piece = None, bm_captured = None\<rparr>"
    by code_simp
  ultimately show ?thesis by blast
qed

end
